theory Spec2Isabelle
  imports Main "HOL-Library.Multiset"
begin

section \<open>Strings and numbers of the program\<close>

text \<open>
  A JavaScript string is a sequence of UTF-16 code units. It is modelled as the list of
  its code units, each a natural number; \<open>js ''abc''\<close> is the string literal \<open>'abc'\<close>.
\<close>

type_synonym jsstring = "nat list"

abbreviation (input) js :: "string \<Rightarrow> jsstring" where
  "js s \<equiv> map of_char s"

text \<open>
  A JavaScript number is a double. Every integer up to \<open>2 ^ 53\<close> is a double, so
  \<open>parseInt\<close> is exact on a decimal numeral up to there (\<open>Exact n\<close>); beyond it the result
  is the double nearest to the numeral's value, which is not modelled further (\<open>Rounded\<close>).
  \<open>NaN\<close> is what \<open>Number(undefined)\<close> gives.
\<close>

datatype number = Exact nat | Rounded | NaN

definition is_digit :: "nat \<Rightarrow> bool" where
  "is_digit c \<longleftrightarrow> 48 \<le> c \<and> c \<le> 57"

text \<open>
  \<open>parseInt(s, 10)\<close> as the program calls it: on capture group 2 of the file name
  pattern, a non-empty run of ASCII digits, where it neither skips white space nor reads
  a sign nor stops early. The model describes \<open>parseInt\<close> on such runs (and on the empty
  string, which gives \<open>NaN\<close>) and is not meant for other arguments.
\<close>

definition decimal_value :: "jsstring \<Rightarrow> nat" where
  "decimal_value ds = foldl (\<lambda>acc c. 10 * acc + (c - 48)) 0 ds"

definition parseInt10 :: "jsstring \<Rightarrow> number" where
  "parseInt10 ds =
     (if ds = [] \<or> \<not> list_all is_digit ds then NaN
      else if decimal_value ds \<le> 2 ^ 53 then Exact (decimal_value ds) else Rounded)"

text \<open>
  The conversion of a number to a string inside a template literal, for the non-negative
  integers the generator's loop counter takes: the decimal numeral without leading zeros.
\<close>

fun to_string :: "nat \<Rightarrow> jsstring" where
  "to_string n = (if n < 10 then [48 + n] else to_string (n div 10) @ [48 + n mod 10])"

declare to_string.simps [simp del]

section \<open>File names of the stimuli\<close>

definition IMAGE_EXT :: jsstring where
  "IMAGE_EXT = js ''.png''"

definition NUM_FACES_PER_SEX :: nat where
  "NUM_FACES_PER_SEX = 6"

definition HEIGHT_CODES :: "jsstring list" where
  "HEIGHT_CODES = [js ''1'', js ''2'', js ''3'']"

definition ATTR_CODES :: "jsstring list" where
  "ATTR_CODES = [js '''', js ''.2'', js ''.3'']"

text \<open>The template literal \<open>`${sexTag}.${face}_${h}${a}${IMAGE_EXT}`\<close>.\<close>

definition file_name :: "jsstring \<Rightarrow> nat \<Rightarrow> jsstring \<Rightarrow> jsstring \<Rightarrow> jsstring" where
  "file_name sexTag face h a = sexTag @ js ''.'' @ to_string face @ js ''_'' @ h @ a @ IMAGE_EXT"

text \<open>The three nested loops of \<open>buildFiles\<close>: faces outermost, then heights, then attractiveness.\<close>

definition buildFiles :: "jsstring \<Rightarrow> jsstring list" where
  "buildFiles sexTag =
     concat (map (\<lambda>face. concat (map (\<lambda>h. map (\<lambda>a. file_name sexTag face h a) ATTR_CODES)
                                     HEIGHT_CODES))
                 [1 ..< Suc NUM_FACES_PER_SEX])"

definition maleFiles :: "jsstring list" where
  "maleFiles = buildFiles (js ''M.F'')"

definition femaleFiles :: "jsstring list" where
  "femaleFiles = buildFiles (js ''F.F'')"

definition malePaths :: "jsstring list" where
  "malePaths = map (\<lambda>f. js ''all_images/'' @ f) maleFiles"

definition femalePaths :: "jsstring list" where
  "femalePaths = map (\<lambda>f. js ''all_images/'' @ f) femaleFiles"

section \<open>Parsing a file name\<close>

text \<open>
  \<open>imgPath.split('/')\<close>: the pieces between the separators, in order. The result is never
  empty, so the \<open>pop()\<close> that follows always finds a last piece (\<open>last\<close> below).
\<close>

fun split_from :: "nat \<Rightarrow> jsstring \<Rightarrow> jsstring \<Rightarrow> jsstring list" where
  "split_from sep cur [] = [cur]"
| "split_from sep cur (c # cs) =
     (if c = sep then cur # split_from sep [] cs else split_from sep (cur @ [c]) cs)"

definition split :: "nat \<Rightarrow> jsstring \<Rightarrow> jsstring list" where
  "split sep s = split_from sep [] s"

text \<open>
  The pattern is
  \<^verbatim>\<open>/^([FM]\.F)\.(\d+)_([123])(?:\.([23]))?\.(png|jpg|jpeg)$/i\<close>.
  With the flag \<open>i\<close> (and no flag \<open>u\<close>) two code units match when their canonical forms
  agree. The canonical form of an ASCII letter is its upper case; a code unit from 128 on
  never has an ASCII canonical form, and every character of the pattern is ASCII, so
  leaving the other code units as they are gives the same matches.
\<close>

definition canonicalize :: "nat \<Rightarrow> nat" where
  "canonicalize c = (if 97 \<le> c \<and> c \<le> 122 then c - 32 else c)"

text \<open>\<^verbatim>\<open>(png|jpg|jpeg)$\<close>: what is left is one of the three extensions, in any case.\<close>

definition match_ext :: "jsstring \<Rightarrow> bool" where
  "match_ext s \<longleftrightarrow> map canonicalize s \<in> {js ''PNG'', js ''JPG'', js ''JPEG''}"

text \<open>\<^verbatim>\<open>\.(png|jpg|jpeg)$\<close>\<close>

definition match_dot_ext :: "jsstring \<Rightarrow> bool" where
  "match_dot_ext s = (case s of [] \<Rightarrow> False | d # ext \<Rightarrow> d = 46 \<and> match_ext ext)"

text \<open>\<^verbatim>\<open>\.([23])\.(png|jpg|jpeg)$\<close>, the tail when the optional group takes part; gives group 4.\<close>

definition match_attr_ext :: "jsstring \<Rightarrow> jsstring option" where
  "match_attr_ext s =
     (case s of
        d # a # rest \<Rightarrow> if d = 46 \<and> (a = 50 \<or> a = 51) \<and> match_dot_ext rest then Some [a] else None
      | _ \<Rightarrow> None)"

text \<open>
  \<^verbatim>\<open>(?:\.([23]))?\.(png|jpg|jpeg)$\<close>: the optional group is greedy, so the matcher first
  tries the tail with the group and, when that fails, the tail without it. The result is
  group 4: \<open>None\<close> inside \<open>Some\<close> when the group did not take part (\<open>undefined\<close>).
\<close>

definition match_tail :: "jsstring \<Rightarrow> jsstring option option" where
  "match_tail s =
     (case match_attr_ext s of
        Some a \<Rightarrow> Some (Some a)
      | None \<Rightarrow> if match_dot_ext s then Some None else None)"

text \<open>
  \<^verbatim>\<open>(\d+)_([123])\<close> and the tail. \<^verbatim>\<open>\d+\<close> takes the longest run of digits; giving
  one back cannot help, since the next character of the pattern is \<open>_\<close>, not a digit.
  The result is groups 2, 3 and 4.
\<close>

definition match_face :: "jsstring \<Rightarrow> (jsstring \<times> jsstring \<times> jsstring option) option" where
  "match_face s =
     (let ds = takeWhile is_digit s in
      if ds = [] then None
      else case dropWhile is_digit s of
             u # h # rest \<Rightarrow>
               if u = 95 \<and> (h = 49 \<or> h = 50 \<or> h = 51)
               then (case match_tail rest of None \<Rightarrow> None | Some a \<Rightarrow> Some (ds, [h], a))
               else None
           | _ \<Rightarrow> None)"

text \<open>The whole pattern, anchored at both ends; the result is groups 1 to 4.\<close>

definition match_name ::
  "jsstring \<Rightarrow> (jsstring \<times> jsstring \<times> jsstring \<times> jsstring option) option" where
  "match_name name =
     (case name of
        t0 # t1 # t2 # d # rest \<Rightarrow>
          if (canonicalize t0 = 70 \<or> canonicalize t0 = 77) \<and> t1 = 46 \<and> canonicalize t2 = 70
             \<and> d = 46
          then (case match_face rest of
                  None \<Rightarrow> None
                | Some (m2, m3, m4) \<Rightarrow> Some ([t0, t1, t2], m2, m3, m4))
          else None
      | _ \<Rightarrow> None)"

record meta =
  sex :: "jsstring option"
  face_id :: "number option"
  height_code :: "jsstring option"
  height_label :: "jsstring option"
  attract_code :: "jsstring option"
  attract_label :: "jsstring option"

definition null_meta :: meta where
  "null_meta = \<lparr>sex = None, face_id = None, height_code = None, height_label = None,
                 attract_code = None, attract_label = None\<rparr>"

definition parseMeta :: "jsstring \<Rightarrow> meta" where
  "parseMeta imgPath =
     (let name = last (split 47 imgPath) in
      case match_name name of
        None \<Rightarrow> null_meta
      | Some (tag, m2, h, m4) \<Rightarrow>
          (let face = parseInt10 m2;
               a = (case m4 of None \<Rightarrow> [] | Some x \<Rightarrow> x)
           in \<lparr>sex = Some (if tag = js ''F.F'' then js ''Female'' else js ''Male''),
               face_id = Some face,
               height_code = Some h,
               height_label = Some (if h = js ''1'' then js ''Tall''
                                    else if h = js ''2'' then js ''Average'' else js ''Short''),
               attract_code = (if a = [] then None else Some a),
               attract_label = Some (if a = [] then js ''Attractive''
                                     else if a = js ''2'' then js ''LessAttractive''
                                     else js ''VeryUnattractive'')\<rparr>))"

text \<open>
  The language of the parser's pattern as a set of strings: what the regular expression
  of \<open>parseMeta\<close> denotes, read off it piece by piece, without reference to the matcher.
  It is wider than the grammar of the generated names: the sex tag and the extension may
  be in any letter case, the face id is any non-empty run of digits, and the extension
  may be \<open>jpg\<close> or \<open>jpeg\<close>.
\<close>

definition matches_pattern :: "jsstring \<Rightarrow> bool" where
  "matches_pattern name \<longleftrightarrow>
     (\<exists>tag ds h a ext.
        name = tag @ js ''.'' @ ds @ js ''_'' @ [h] @ a @ js ''.'' @ ext
        \<and> map canonicalize tag \<in> {js ''F.F'', js ''M.F''}
        \<and> ds \<noteq> [] \<and> list_all is_digit ds
        \<and> [h] \<in> {js ''1'', js ''2'', js ''3''}
        \<and> a \<in> {[], js ''.2'', js ''.3''}
        \<and> map canonicalize ext \<in> {js ''PNG'', js ''JPG'', js ''JPEG''})"

text \<open>
  The file name grammar as the specification words it (data model, \<open>StimulusPath\<close>):
  \<open><SexTag>.<faceId>_<heightCode><attractivenessSuffix>.<ext>\<close> with the sex tag \<open>M.F\<close> or
  \<open>F.F\<close>, the face id a positive integer within the fixed range (up to the face count),
  written as a decimal numeral, the height code \<open>1\<close>, \<open>2\<close> or \<open>3\<close>, the attractiveness
  suffix empty, \<open>.2\<close> or \<open>.3\<close>, and the extension that of the PNG stimulus files.
\<close>

definition spec_filename_grammar :: "jsstring \<Rightarrow> bool" where
  "spec_filename_grammar name \<longleftrightarrow>
     (\<exists>tag face h a.
        name = tag @ js ''.'' @ to_string face @ js ''_'' @ h @ a @ js ''.png''
        \<and> (tag = js ''M.F'' \<or> tag = js ''F.F'')
        \<and> 1 \<le> face \<and> face \<le> NUM_FACES_PER_SEX
        \<and> (h = js ''1'' \<or> h = js ''2'' \<or> h = js ''3'')
        \<and> (a = [] \<or> a = js ''.2'' \<or> a = js ''.3''))"

section \<open>The participant id\<close>

datatype error = URIError

text \<open>
  \<open>decodeURIComponent\<close> is the standard's \<open>Decode\<close> with no reserved characters. A code unit
  other than \<open>%\<close> is copied. A \<open>%\<close> must be followed by two hexadecimal digits, which give
  an octet. An octet below 128 is the code unit itself. A larger octet starts a UTF-8
  sequence of two to four octets, each further one written as another escape; the
  sequence must be the UTF-8 encoding of a code point (no overlong form, no surrogate,
  nothing above \<open>0x10FFFF\<close>), which is appended in UTF-16. Anything else raises \<open>URIError\<close>.
\<close>

definition hex_digit_value :: "nat \<Rightarrow> nat option" where
  "hex_digit_value c =
     (if 48 \<le> c \<and> c \<le> 57 then Some (c - 48)
      else if 65 \<le> c \<and> c \<le> 70 then Some (c - 55)
      else if 97 \<le> c \<and> c \<le> 102 then Some (c - 87)
      else None)"

text \<open>The octet written by the two code units that follow a \<open>%\<close>.\<close>

definition parse_hex_octet :: "jsstring \<Rightarrow> nat option" where
  "parse_hex_octet s =
     (case s of
        h1 # h2 # _ \<Rightarrow>
          (case hex_digit_value h1 of
             None \<Rightarrow> None
           | Some a \<Rightarrow> (case hex_digit_value h2 of None \<Rightarrow> None | Some b \<Rightarrow> Some (16 * a + b)))
      | _ \<Rightarrow> None)"

text \<open>The number of leading 1 bits of an octet from 128 on.\<close>

definition leading_ones :: "nat \<Rightarrow> nat" where
  "leading_ones b =
     (if b < 192 then 1 else if b < 224 then 2 else if b < 240 then 3
      else if b < 248 then 4 else 5)"

text \<open>The next \<open>j\<close> escapes \<open>%XX\<close>, as octets; \<open>None\<close> when one of them is missing or malformed.\<close>

fun continuation :: "nat \<Rightarrow> jsstring \<Rightarrow> nat list option" where
  "continuation 0 s = Some []"
| "continuation (Suc j) s =
     (case s of
        [] \<Rightarrow> None
      | p # rest \<Rightarrow>
          if p \<noteq> 37 then None
          else (case parse_hex_octet rest of
                  None \<Rightarrow> None
                | Some b \<Rightarrow> (case continuation j (drop 2 rest) of
                               None \<Rightarrow> None
                             | Some bs \<Rightarrow> Some (b # bs))))"

definition is_continuation_octet :: "nat \<Rightarrow> bool" where
  "is_continuation_octet b \<longleftrightarrow> 128 \<le> b \<and> b < 192"

text \<open>The code point that a sequence of two to four octets encodes in UTF-8, if it is valid.\<close>

definition utf8_code_point :: "nat list \<Rightarrow> nat option" where
  "utf8_code_point octets =
     (case octets of
        [b0, b1] \<Rightarrow>
          (let v = (b0 - 192) * 64 + (b1 - 128)
           in if is_continuation_octet b1 \<and> 128 \<le> v then Some v else None)
      | [b0, b1, b2] \<Rightarrow>
          (let v = (b0 - 224) * 4096 + (b1 - 128) * 64 + (b2 - 128)
           in if is_continuation_octet b1 \<and> is_continuation_octet b2 \<and> 2048 \<le> v
                 \<and> \<not> (55296 \<le> v \<and> v \<le> 57343)
              then Some v else None)
      | [b0, b1, b2, b3] \<Rightarrow>
          (let v = (b0 - 240) * 262144 + (b1 - 128) * 4096 + (b2 - 128) * 64 + (b3 - 128)
           in if is_continuation_octet b1 \<and> is_continuation_octet b2 \<and> is_continuation_octet b3
                 \<and> 65536 \<le> v \<and> v \<le> 1114111
              then Some v else None)
      | _ \<Rightarrow> None)"

definition utf16_encode :: "nat \<Rightarrow> jsstring" where
  "utf16_encode v =
     (if v < 65536 then [v]
      else [55296 + (v - 65536) div 1024, 56320 + (v - 65536) mod 1024])"

fun decodeURIComponent :: "jsstring \<Rightarrow> error + jsstring" where
  "decodeURIComponent [] = Inr []"
| "decodeURIComponent (c # s) =
     (if c \<noteq> 37 then
        (case decodeURIComponent s of Inl e \<Rightarrow> Inl e | Inr r \<Rightarrow> Inr (c # r))
      else
        (case parse_hex_octet s of
           None \<Rightarrow> Inl URIError
         | Some b \<Rightarrow>
             if b < 128 then
               (case decodeURIComponent (drop 2 s) of Inl e \<Rightarrow> Inl e | Inr r \<Rightarrow> Inr (b # r))
             else if leading_ones b = 1 \<or> 4 < leading_ones b then Inl URIError
             else
               (case continuation (leading_ones b - 1) (drop 2 s) of
                  None \<Rightarrow> Inl URIError
                | Some bs \<Rightarrow>
                    (case utf8_code_point (b # bs) of
                       None \<Rightarrow> Inl URIError
                     | Some v \<Rightarrow>
                         (case decodeURIComponent (drop (3 * (leading_ones b - 1)) (drop 2 s)) of
                            Inl e \<Rightarrow> Inl e
                          | Inr r \<Rightarrow> Inr (utf16_encode v @ r))))))"

text \<open>
  What the page is entered with and what the platform supplies: the lookup of
  \<open>new URLSearchParams(location.search).get\<close> (\<open>None\<close> is its \<open>null\<close>), the result of
  \<open>crypto.randomUUID()\<close> (\<open>None\<close> when it is missing or raises), and the two strings of the
  fallback, \<open>Math.random().toString(36).slice(2)\<close> and \<open>Date.now().toString(36)\<close>.
\<close>

record entry =
  search_params :: "jsstring \<Rightarrow> jsstring option"
  randomUUID :: "jsstring option"
  random36 :: jsstring
  now36 :: jsstring

definition safeUUID :: "entry \<Rightarrow> jsstring" where
  "safeUUID pg =
     (case randomUUID pg of Some u \<Rightarrow> u | None \<Rightarrow> js ''pid_'' @ random36 pg @ now36 pg)"

text \<open>\<open>m ? decodeURIComponent(m) : null\<close>: \<open>null\<close> and the empty string are falsy.\<close>

definition getParam :: "entry \<Rightarrow> jsstring \<Rightarrow> error + jsstring option" where
  "getParam pg name =
     (case search_params pg name of
        None \<Rightarrow> Inr None
      | Some m \<Rightarrow>
          if m = [] then Inr None
          else (case decodeURIComponent m of Inl e \<Rightarrow> Inl e | Inr s \<Rightarrow> Inr (Some s)))"

text \<open>
  \<open>a || b\<close>: the value of \<open>a\<close> when it is truthy, else that of \<open>b\<close>; \<open>b\<close> is not evaluated when
  \<open>a\<close> is truthy, and an operand that raises ends the evaluation.
\<close>

definition or_else ::
  "error + jsstring option \<Rightarrow> error + jsstring option \<Rightarrow> error + jsstring option" where
  "or_else a b =
     (case a of
        Inl e \<Rightarrow> Inl e
      | Inr None \<Rightarrow> b
      | Inr (Some s) \<Rightarrow> if s = [] then b else Inr (Some s))"

definition participant_id :: "entry \<Rightarrow> error + jsstring" where
  "participant_id pg =
     (case or_else (or_else (getParam pg (js ''pid'')) (getParam pg (js ''workerId'')))
                   (getParam pg (js ''PROLIFIC_PID'')) of
        Inl e \<Rightarrow> Inl e
      | Inr None \<Rightarrow> Inr (safeUUID pg)
      | Inr (Some s) \<Rightarrow> if s = [] then Inr (safeUUID pg) else Inr s)"

text \<open>
  The participant id as the specification words it: the first non-empty value among the
  parameters \<open>pid\<close>, \<open>workerId\<close> and \<open>PROLIFIC_PID\<close>, in that order, else a generated id.
\<close>

definition first_nonempty_param :: "entry \<Rightarrow> jsstring" where
  "first_nonempty_param pg =
     (case filter (\<lambda>v. v \<noteq> None \<and> v \<noteq> Some [])
                  (map (search_params pg) [js ''pid'', js ''workerId'', js ''PROLIFIC_PID'']) of
        Some v # _ \<Rightarrow> v
      | _ \<Rightarrow> safeUUID pg)"

section \<open>Trials, blocks and the timeline\<close>

text \<open>
  The object \<open>makeImageTrial\<close> returns is determined by its \<open>data\<close>: the block label, the
  image path and the parsed metadata, whose fields the source spreads into the same
  object (\<open>parsed\<close> holds them here). Plugin type, form, button label and \<open>on_load\<close> are the
  same for every trial, and the preamble shows the image of \<open>data\<close>.
\<close>

record image_trial =
  block :: jsstring
  image :: jsstring
  parsed :: meta

text \<open>
  A timeline entry, by plugin. The four instruction screens differ in their one page of
  HTML, which is fixed text except for the block intro, a function of the block label.
  The constant \<open>welcome\<close> of the source is \<open>welcome_screen\<close> here.
\<close>

datatype page = Welcome_page | Instructions_page | Block_intro_page jsstring | Thank_you_page

datatype step =
    JsPsychFullscreen
  | JsPsychPreload "jsstring list"
  | JsPsychInstructions page
  | JsPsychSurveyHtmlForm image_trial

definition preload :: step where
  "preload = JsPsychPreload (malePaths @ femalePaths)"

definition fullscreen :: step where
  "fullscreen = JsPsychFullscreen"

definition welcome_screen :: step where
  "welcome_screen = JsPsychInstructions Welcome_page"

definition instructions :: step where
  "instructions = JsPsychInstructions Instructions_page"

definition makeBlockIntro :: "jsstring \<Rightarrow> step" where
  "makeBlockIntro label = JsPsychInstructions (Block_intro_page label)"

definition makeImageTrial :: "jsstring \<Rightarrow> jsstring \<Rightarrow> step" where
  "makeImageTrial blockLabel imgPath =
     JsPsychSurveyHtmlForm \<lparr>block = blockLabel, image = imgPath, parsed = parseMeta imgPath\<rparr>"

text \<open>
  The random numbers are an input: \<open>rnd k\<close> stands for the \<open>k\<close>-th number that
  \<open>Math.random()\<close> will return.
\<close>

type_synonym draws = "nat \<Rightarrow> nat"

text \<open>
  Modelled from the spec: \<open>jsPsych.randomization.shuffle\<close> is code of the experiment
  runner, which is not among the sources; the specification asks of it a uniform random
  permutation. It is modelled as the shuffle of Fisher and Yates on a copy of the array:
  \<open>m\<close> runs from the length down to 1, an index below \<open>m\<close> is drawn, \<open>m\<close> is decreased, and
  the elements at \<open>m\<close> and at the drawn index change places. The index drawn below \<open>m\<close>
  from the random number \<open>rnd 0\<close> is \<open>rnd 0 mod m\<close>, so every index below \<open>m\<close> can be
  drawn and no other. The function returns the numbers not yet used along with the
  result.
\<close>

fun shuffle_loop :: "nat \<Rightarrow> draws \<Rightarrow> 'a list \<Rightarrow> 'a list \<times> draws" where
  "shuffle_loop 0 rnd xs = (xs, rnd)"
| "shuffle_loop (Suc m) rnd xs =
     (let i = rnd 0 mod Suc m
      in shuffle_loop m (\<lambda>k. rnd (Suc k)) (xs[m := xs ! i, i := xs ! m]))"

text \<open>
  Modelled from the spec: \<open>jsPsych.randomization.shuffle\<close>, the loop above started at the
  length of the array.
\<close>

definition shuffle :: "draws \<Rightarrow> 'a list \<Rightarrow> 'a list \<times> draws" where
  "shuffle rnd xs = shuffle_loop (length xs) rnd xs"

definition makeBlockTrials :: "draws \<Rightarrow> jsstring \<Rightarrow> jsstring list \<Rightarrow> step list \<times> draws" where
  "makeBlockTrials rnd label paths = shuffle rnd (map (\<lambda>p. makeImageTrial label p) paths)"

definition maleIntro :: step where
  "maleIntro = makeBlockIntro (js ''Male'')"

definition femaleIntro :: step where
  "femaleIntro = makeBlockIntro (js ''Female'')"

text \<open>
  The three shuffles run in the order of the source: the male trials, the female trials,
  the two blocks. Each takes the random numbers its predecessor left.
\<close>

definition maleTrials :: "draws \<Rightarrow> step list \<times> draws" where
  "maleTrials rnd = makeBlockTrials rnd (js ''Male'') malePaths"

definition femaleTrials :: "draws \<Rightarrow> step list \<times> draws" where
  "femaleTrials rnd = makeBlockTrials (snd (maleTrials rnd)) (js ''Female'') femalePaths"

record block_def =
  intro :: step
  trials :: "step list"

definition blocks :: "draws \<Rightarrow> block_def list" where
  "blocks rnd =
     fst (shuffle (snd (femaleTrials rnd))
            [\<lparr>intro = maleIntro, trials = fst (maleTrials rnd)\<rparr>,
             \<lparr>intro = femaleIntro, trials = fst (femaleTrials rnd)\<rparr>])"

definition thankYou :: step where
  "thankYou = JsPsychInstructions Thank_you_page"

text \<open>
  The five \<open>push\<close> calls that fill the timeline, in order. The shuffled list of blocks has
  two elements, so \<open>blocks[0]\<close> and \<open>blocks[1]\<close> exist.
\<close>

definition timeline :: "draws \<Rightarrow> step list" where
  "timeline rnd =
     [] @ [fullscreen] @ [preload, welcome_screen, instructions]
        @ (intro (blocks rnd ! 0) # trials (blocks rnd ! 0))
        @ (intro (blocks rnd ! 1) # trials (blocks rnd ! 1))
        @ [thankYou]"

text \<open>The image paths of the rating trials of a timeline, in order.\<close>

fun trial_images :: "step list \<Rightarrow> jsstring list" where
  "trial_images [] = []"
| "trial_images (JsPsychSurveyHtmlForm t # ss) = image t # trial_images ss"
| "trial_images (_ # ss) = trial_images ss"

section \<open>The gate of a trial\<close>

text \<open>
  The part of the document \<open>on_load\<close> works on: the submit button (\<open>None\<close> when neither
  selector finds one, else its \<open>disabled\<close> flag), the message element (\<open>None\<close> until it is
  created, else its \<open>style.display\<close>), and the range inputs in document order. A range
  input carries \<open>dataset.touched\<close> and the event types for which a one-shot listener
  calling \<open>mark\<close> is still registered.
\<close>

datatype event_type =
  Input | Change | Pointerdown | Mousedown | Touchstart | Focus | Keydown | Other_event

record slider =
  touched :: "jsstring option"
  once :: "event_type list"

record form =
  button :: "bool option"
  msg :: "jsstring option"
  sliders :: "slider list"

text \<open>The seven event types \<open>on_load\<close> registers a listener for, in the order of the source.\<close>

definition qualifying :: "event_type list" where
  "qualifying = [Input, Change, Pointerdown, Mousedown, Touchstart, Focus, Keydown]"

definition checkAllTouched :: "form \<Rightarrow> form" where
  "checkAllTouched f =
     (let ok = list_all (\<lambda>s. touched s = Some (js ''1'')) (sliders f)
      in f\<lparr>button := Some (\<not> ok), msg := Some (if ok then js ''none'' else js ''block'')\<rparr>)"

text \<open>The listener \<open>mark\<close> of the \<open>i\<close>-th range input.\<close>

definition mark :: "nat \<Rightarrow> form \<Rightarrow> form" where
  "mark i f =
     checkAllTouched
       (f\<lparr>sliders := (sliders f)[i := (sliders f ! i)\<lparr>touched := Some (js ''1'')\<rparr>]\<rparr>)"

definition on_load :: "form \<Rightarrow> form" where
  "on_load f =
     (case button f of
        None \<Rightarrow> f
      | Some _ \<Rightarrow>
          (let f1 = f\<lparr>button := Some True, msg := Some []\<rparr>;
               f2 = f1\<lparr>sliders := map (\<lambda>s. s\<lparr>touched := Some (js ''0'')\<rparr>) (sliders f1)\<rparr>;
               f3 = f2\<lparr>sliders := map (\<lambda>s. s\<lparr>once := once s @ qualifying\<rparr>) (sliders f2)\<rparr>
           in checkAllTouched f3))"

text \<open>
  An event of type \<open>ev\<close> on the \<open>i\<close>-th range input: if a listener for the type is
  registered there, it is removed (\<open>once: true\<close>) and \<open>mark\<close> runs; else nothing happens.
\<close>

definition dispatch :: "form \<Rightarrow> nat \<times> event_type \<Rightarrow> form" where
  "dispatch f e =
     (case e of
        (i, ev) \<Rightarrow>
          if i < length (sliders f) \<and> ev \<in> set (once (sliders f ! i))
          then mark i (f\<lparr>sliders :=
                           (sliders f)[i := (sliders f ! i)\<lparr>once := remove1 ev (once (sliders f ! i))\<rparr>]\<rparr>)
          else f)"

text \<open>
  Modelled from the spec: the plugin that shows a trial is code of the experiment runner,
  not among the sources. It renders the form of \<open>makeImageTrial\<close>, that is the four range
  inputs \<open>Q1\<close> to \<open>Q4\<close>, and its own submit button, enabled, and then calls \<open>on_load\<close>.
\<close>

definition rendered_form :: form where
  "rendered_form =
     \<lparr>button = Some False, msg = None, sliders = replicate 4 \<lparr>touched = None, once = []\<rparr>\<rparr>"

text \<open>The form after \<open>on_load\<close> and a sequence of events on the range inputs.\<close>

definition gate_after :: "(nat \<times> event_type) list \<Rightarrow> form" where
  "gate_after evs = foldl dispatch (on_load rendered_form) evs"

section \<open>The session: running the timeline and saving the results\<close>

text \<open>
  The answer to a rating screen: the positions of the four sliders. A range input with
  \<open>min=1\<close>, \<open>max=7\<close> and \<open>step=1\<close> has as its value the decimal numeral of its position, so
  \<open>Number\<close> of the submitted value is the position.
\<close>

record response =
  Q1 :: nat
  Q2 :: nat
  Q3 :: nat
  Q4 :: nat

text \<open>
  What the runner records when a timeline entry finishes: the name of the plugin, the
  property \<open>participant_id\<close> that \<open>addProperties\<close> attaches to every record, the \<open>data\<close> of the
  entry (only the rating trials have one), the response time in milliseconds and the
  response. \<open>None\<close> is a field the record does not have (\<open>undefined\<close>).
\<close>

record trial_data =
  trial_type :: jsstring
  participant :: jsstring
  data :: "image_trial option"
  rt :: "nat option"
  response :: "response option"

text \<open>
  A saved row has the eleven fields \<open>block\<close>, \<open>image\<close>, \<open>sex\<close>, \<open>face_id\<close>, \<open>height_label\<close>,
  \<open>attract_label\<close>, \<open>rt\<close> and \<open>Q1\<close> to \<open>Q4\<close> (here with the prefix \<open>row_\<close>); a streamed row has
  \<open>participant_id\<close> and \<open>createdAt\<close> in addition. \<open>None\<close> is \<open>null\<close> or \<open>undefined\<close>.
\<close>

datatype server_value = TIMESTAMP

record row =
  row_block :: "jsstring option"
  row_image :: "jsstring option"
  row_sex :: "jsstring option"
  row_face_id :: "number option"
  row_height_label :: "jsstring option"
  row_attract_label :: "jsstring option"
  row_rt :: "nat option"
  row_Q1 :: number
  row_Q2 :: number
  row_Q3 :: number
  row_Q4 :: number

record stream_row = row +
  row_participant_id :: jsstring
  row_createdAt :: server_value

record payload =
  payload_participant_id :: jsstring
  payload_trials :: "row list"
  client_version :: jsstring
  payload_createdAt :: server_value

text \<open>
  The effects of the hooks, in the order in which they happen. A \<open>push\<close> is recorded with
  the collection, the value and what the backend makes of it: it accepts the write, it
  rejects it, or it never answers. A timer is recorded with its delay in milliseconds and
  the address its callback assigns to \<open>window.location.href\<close>.
\<close>

datatype outcome = Accepted | Rejected | Pending

datatype db_value = Stream_row stream_row | Session_payload payload

datatype level = Log_level | Warn_level | Error_level

datatype effect =
    Push jsstring db_value outcome
  | Console level jsstring
  | SetTimeout nat jsstring

record world =
  store :: "trial_data list"
  trace :: "effect list"

text \<open>The backend is an input: \<open>backend k\<close> is what becomes of the \<open>k\<close>-th \<open>push\<close> of the session.\<close>

type_synonym backend = "nat \<Rightarrow> outcome"

fun pushes :: "effect list \<Rightarrow> nat" where
  "pushes [] = 0"
| "pushes (Push c v out # es) = Suc (pushes es)"
| "pushes (_ # es) = pushes es"

text \<open>
  \<open>saveTrialRow\<close>: the row is pushed to \<open>responses_stream\<close>; a rejection is caught and
  logged as a warning. Nothing waits for the result, so a write that is never answered
  has no effect at all. The warning is recorded right after its \<open>push\<close>; in the program it
  may come later, between the effects of later trials.
\<close>

definition saveTrialRow :: "backend \<Rightarrow> world \<Rightarrow> stream_row \<Rightarrow> world" where
  "saveTrialRow backend w r =
     (let out = backend (pushes (trace w))
      in w\<lparr>trace := trace w @ [Push (js ''responses_stream'') (Stream_row r) out]
                     @ (if out = Rejected then [Console Warn_level (js ''Partial save failed:'')]
                        else [])\<rparr>)"

text \<open>\<open>Number(row.response?.Q1)\<close>: \<open>NaN\<close> when there is no response.\<close>

definition Number_of :: "response option \<Rightarrow> (response \<Rightarrow> nat) \<Rightarrow> number" where
  "Number_of r q = (case r of None \<Rightarrow> NaN | Some x \<Rightarrow> Exact (q x))"

text \<open>The object that \<open>on_trial_finish\<close> hands to \<open>saveTrialRow\<close>.\<close>

definition stream_row_of :: "jsstring \<Rightarrow> trial_data \<Rightarrow> stream_row" where
  "stream_row_of pid d =
     \<lparr>row_block = map_option block (data d),
      row_image = map_option image (data d),
      row_sex = Option.bind (data d) (\<lambda>t. sex (parsed t)),
      row_face_id = Option.bind (data d) (\<lambda>t. face_id (parsed t)),
      row_height_label = Option.bind (data d) (\<lambda>t. height_label (parsed t)),
      row_attract_label = Option.bind (data d) (\<lambda>t. attract_label (parsed t)),
      row_rt = rt d,
      row_Q1 = Number_of (response d) Q1,
      row_Q2 = Number_of (response d) Q2,
      row_Q3 = Number_of (response d) Q3,
      row_Q4 = Number_of (response d) Q4,
      row_participant_id = pid,
      row_createdAt = TIMESTAMP\<rparr>"

definition on_trial_finish :: "backend \<Rightarrow> jsstring \<Rightarrow> world \<Rightarrow> trial_data \<Rightarrow> world" where
  "on_trial_finish backend pid w d =
     (if trial_type d = js ''survey-html-form''
      then saveTrialRow backend w (stream_row_of pid d)
      else w)"

text \<open>The function mapped over the rating records in \<open>on_finish\<close>.\<close>

definition final_row :: "trial_data \<Rightarrow> row" where
  "final_row d =
     \<lparr>row_block = map_option block (data d),
      row_image = map_option image (data d),
      row_sex = Option.bind (data d) (\<lambda>t. sex (parsed t)),
      row_face_id = Option.bind (data d) (\<lambda>t. face_id (parsed t)),
      row_height_label = Option.bind (data d) (\<lambda>t. height_label (parsed t)),
      row_attract_label = Option.bind (data d) (\<lambda>t. attract_label (parsed t)),
      row_rt = rt d,
      row_Q1 = Number_of (response d) Q1,
      row_Q2 = Number_of (response d) Q2,
      row_Q3 = Number_of (response d) Q3,
      row_Q4 = Number_of (response d) Q4\<rparr>"

definition CLOUDRESEARCH_COMPLETION_URL :: jsstring where
  "CLOUDRESEARCH_COMPLETION_URL = []"

text \<open>
  \<open>on_finish\<close>, with the completion address as a parameter (the source sets it to the
  empty string). The payload is pushed to \<open>responses\<close> and the result awaited: when the
  backend never answers, nothing further happens. Otherwise the success or the failure is
  logged, and then, if the address is not empty, the timer for the redirect is set.
\<close>

definition on_finish :: "backend \<Rightarrow> jsstring \<Rightarrow> jsstring \<Rightarrow> world \<Rightarrow> world" where
  "on_finish backend url pid w =
     (let trials = map final_row
                     (filter (\<lambda>d. trial_type d = js ''survey-html-form'') (store w));
          payload = \<lparr>payload_participant_id = pid, payload_trials = trials,
                     client_version = js ''v1'', payload_createdAt = TIMESTAMP\<rparr>;
          out = backend (pushes (trace w));
          w1 = w\<lparr>trace := trace w @ [Push (js ''responses'') (Session_payload payload) out]\<rparr>
      in case out of
           Pending \<Rightarrow> w1
         | _ \<Rightarrow>
           (let w2 = w1\<lparr>trace := trace w1 @
                           [if out = Accepted then Console Log_level (js ''Firebase final save OK'')
                            else Console Error_level (js ''Firebase final save failed:'')]\<rparr>
            in if url \<noteq> [] then w2\<lparr>trace := trace w2 @ [SetTimeout 1200 url]\<rparr> else w2))"

text \<open>
  The participant is an input: the list holds, for the entries they complete, the
  response time and the answer (the latter is used by the rating screens only).
\<close>

type_synonym participant_input = "nat \<times> response"

text \<open>
  Modelled from the spec: the experiment runner (\<open>initJsPsych\<close>, \<open>jsPsych.run\<close>, \<open>jsPsych.data\<close>)
  is not among the sources. By the contract the specification states, it runs the entries
  of the timeline one at a time, in order; when an entry finishes it records the entry's
  data and calls the trial-finish hook with the record; after the last entry it calls the
  finish hook, once; its data query returns the records in the order of completion.
  \<open>finish_entry\<close> is the record of a finished entry; of the records of the entries that
  are not rating screens only the plugin name matters to the program.
\<close>

definition finish_entry :: "jsstring \<Rightarrow> step \<Rightarrow> participant_input \<Rightarrow> trial_data" where
  "finish_entry pid s inp =
     (case s of
        JsPsychFullscreen \<Rightarrow>
          \<lparr>trial_type = js ''fullscreen'', participant = pid, data = None, rt = None,
           response = None\<rparr>
      | JsPsychPreload imgs \<Rightarrow>
          \<lparr>trial_type = js ''preload'', participant = pid, data = None, rt = None,
           response = None\<rparr>
      | JsPsychInstructions pg \<Rightarrow>
          \<lparr>trial_type = js ''instructions'', participant = pid, data = None,
           rt = Some (fst inp), response = None\<rparr>
      | JsPsychSurveyHtmlForm t \<Rightarrow>
          \<lparr>trial_type = js ''survey-html-form'', participant = pid, data = Some t,
           rt = Some (fst inp), response = Some (snd inp)\<rparr>)"

text \<open>
  Modelled from the spec: the runner's loop over the timeline. When the participant's
  inputs run out before the timeline does, the participant has left at the entry that
  follows; the result says whether the end of the timeline was reached.
\<close>

fun run_entries ::
  "backend \<Rightarrow> jsstring \<Rightarrow> world \<Rightarrow> step list \<Rightarrow> participant_input list \<Rightarrow> world \<times> bool" where
  "run_entries backend pid w [] inps = (w, True)"
| "run_entries backend pid w (s # ss) [] = (w, False)"
| "run_entries backend pid w (s # ss) (inp # inps) =
     (let d = finish_entry pid s inp;
          w1 = w\<lparr>store := store w @ [d]\<rparr>;
          w2 = on_trial_finish backend pid w1 d
      in run_entries backend pid w2 ss inps)"

text \<open>
  Modelled from the spec: \<open>jsPsych.run\<close>, which calls the finish hook after the last entry
  and not at all when the participant leaves before.
\<close>

definition jsPsych_run ::
  "backend \<Rightarrow> jsstring \<Rightarrow> jsstring \<Rightarrow> step list \<Rightarrow> participant_input list \<Rightarrow> world" where
  "jsPsych_run backend url pid entries inps =
     (case run_entries backend pid \<lparr>store = [], trace = []\<rparr> entries inps of
        (w, True) \<Rightarrow> on_finish backend url pid w
      | (w, False) \<Rightarrow> w)"

text \<open>The pushes to a collection that a trace holds, and the values the backend accepted.\<close>

fun pushes_to :: "jsstring \<Rightarrow> effect list \<Rightarrow> (db_value \<times> outcome) list" where
  "pushes_to c [] = []"
| "pushes_to c (Push c' v out # es) =
     (if c' = c then (v, out) # pushes_to c es else pushes_to c es)"
| "pushes_to c (_ # es) = pushes_to c es"

definition stored :: "jsstring \<Rightarrow> effect list \<Rightarrow> db_value list" where
  "stored c es = map fst (filter (\<lambda>(v, out). out = Accepted) (pushes_to c es))"

section \<open>Facts about the parser\<close>

lemmas parser_defs =
  parseMeta_def split_def match_name_def canonicalize_def match_face_def is_digit_def
  match_tail_def match_attr_ext_def match_dot_ext_def match_ext_def parseInt10_def
  decimal_value_def Let_def null_meta_def

lemma split_from_nonempty: "split_from sep cur s \<noteq> []"
  by (induction s arbitrary: cur) auto

lemma last_split_from_no_sep:
  "sep \<notin> set s \<Longrightarrow> last (split_from sep cur s) = cur @ s"
  by (induction s arbitrary: cur) auto

lemma last_split_from_append:
  "sep \<notin> set name \<Longrightarrow> last (split_from sep cur (p @ sep # name)) = name"
  by (induction p arbitrary: cur) (auto simp: split_from_nonempty last_split_from_no_sep)

lemma to_string_digits: "list_all is_digit (to_string n)"
proof (induction n rule: to_string.induct)
  case (1 n)
  show ?case
  proof (cases "n < 10")
    case True
    then show ?thesis by (subst to_string.simps) (simp add: is_digit_def)
  next
    case False
    then have "list_all is_digit (to_string (n div 10))" using 1 by simp
    moreover have "is_digit (48 + n mod 10)" by (simp add: is_digit_def)
    ultimately show ?thesis using False by (subst to_string.simps) simp
  qed
qed

lemma to_string_nonempty: "to_string n \<noteq> []"
  by (subst to_string.simps) auto

lemma decimal_value_snoc: "decimal_value (ds @ [c]) = 10 * decimal_value ds + (c - 48)"
  by (simp add: decimal_value_def)

lemma decimal_value_to_string: "decimal_value (to_string n) = n"
proof (induction n rule: to_string.induct)
  case (1 n)
  show ?case
  proof (cases "n < 10")
    case True
    then show ?thesis by (subst to_string.simps) (simp add: decimal_value_def)
  next
    case False
    then show ?thesis using 1 by (subst to_string.simps) (simp add: decimal_value_snoc)
  qed
qed

lemma takeWhile_digits:
  "list_all is_digit ds \<Longrightarrow> \<not> is_digit c \<Longrightarrow> takeWhile is_digit (ds @ c # r) = ds"
  by (induction ds) auto

lemma dropWhile_digits:
  "list_all is_digit ds \<Longrightarrow> \<not> is_digit c \<Longrightarrow> dropWhile is_digit (ds @ c # r) = c # r"
  by (induction ds) auto

lemma match_tail_plain: "match_ext ext \<Longrightarrow> match_tail (46 # ext) = Some None"
  by (cases ext) (auto simp: match_tail_def match_attr_ext_def match_dot_ext_def match_ext_def canonicalize_def split: list.splits if_splits)

lemma match_tail_attr: "match_ext ext \<Longrightarrow> a = 50 \<or> a = 51 \<Longrightarrow> match_tail (46 # a # 46 # ext) = Some (Some [a])"
  by (auto simp: match_tail_def match_attr_ext_def match_dot_ext_def)

lemma match_tail_cases:
  "match_tail s = Some r \<Longrightarrow>
     (\<exists>ext. match_ext ext \<and> ((r = None \<and> s = 46 # ext) \<or> (\<exists>a. (a = 50 \<or> a = 51) \<and> r = Some [a] \<and> s = 46 # a # 46 # ext)))"
  by (auto simp: match_tail_def match_attr_ext_def match_dot_ext_def split: list.splits if_splits option.splits)

lemma match_face_intro:
  assumes "ds \<noteq> []" "list_all is_digit ds" "h = 49 \<or> h = 50 \<or> h = 51" "match_tail rest = Some a"
  shows "match_face (ds @ 95 # h # rest) = Some (ds, [h], a)"
  using assms by (auto simp: match_face_def Let_def takeWhile_digits dropWhile_digits is_digit_def)

lemma match_face_cases:
  assumes "match_face s = Some (ds, m3, a)"
  shows "\<exists>h rest. s = ds @ 95 # h # rest \<and> ds \<noteq> [] \<and> list_all is_digit ds \<and> (h = 49 \<or> h = 50 \<or> h = 51) \<and> m3 = [h] \<and> match_tail rest = Some a"
proof -
  from assms obtain h rest where
    ds: "ds = takeWhile is_digit s" "ds \<noteq> []" and
    dr: "dropWhile is_digit s = 95 # h # rest" and
    h: "h = 49 \<or> h = 50 \<or> h = 51" "m3 = [h]" and t: "match_tail rest = Some a"
    by (auto simp: match_face_def Let_def split: list.splits if_splits option.splits)
  have "s = takeWhile is_digit s @ dropWhile is_digit s" by simp
  then have s: "s = ds @ 95 # h # rest" using ds dr by simp
  have d: "list_all is_digit ds" unfolding ds
    by (auto simp: list_all_iff dest: set_takeWhileD)
  from s d ds h t show ?thesis by blast
qed

lemma canonicalize_dot: "canonicalize c = 46 \<longleftrightarrow> c = 46"
  by (auto simp: canonicalize_def)

lemma tag_shape:
  "map canonicalize tag \<in> {js ''F.F'', js ''M.F''} \<longleftrightarrow>
     (\<exists>t0 t2. tag = [t0, 46, t2] \<and> (canonicalize t0 = 70 \<or> canonicalize t0 = 77) \<and> canonicalize t2 = 70)"
  by (auto simp: canonicalize_dot map_eq_Cons_conv)

lemma match_name_intro:
  assumes "map canonicalize tag \<in> {js ''F.F'', js ''M.F''}" "match_face rest = Some (m2, m3, m4)"
  shows "match_name (tag @ 46 # rest) = Some (tag, m2, m3, m4)"
proof -
  from assms(1) obtain t0 t2 where "tag = [t0, 46, t2]"
    "canonicalize t0 = 70 \<or> canonicalize t0 = 77" "canonicalize t2 = 70"
    unfolding tag_shape by blast
  then show ?thesis using assms(2) by (auto simp: match_name_def)
qed

lemma match_name_cases:
  assumes "match_name name = Some (tag, m2, m3, m4)"
  shows "\<exists>rest. name = tag @ 46 # rest \<and> map canonicalize tag \<in> {js ''F.F'', js ''M.F''}
            \<and> match_face rest = Some (m2, m3, m4)"
proof -
  from assms obtain t0 t2 rest where "name = t0 # 46 # t2 # 46 # rest"
    "canonicalize t0 = 70 \<or> canonicalize t0 = 77" "canonicalize t2 = 70"
    "match_face rest = Some (m2, m3, m4)" "tag = [t0, 46, t2]"
    by (auto simp: match_name_def split: list.splits if_splits option.splits)
  then show ?thesis unfolding tag_shape by simp
qed


lemma match_tail_pattern:
  "match_tail s = Some m4 \<Longrightarrow>
     \<exists>a ext. s = a @ 46 # ext \<and> a \<in> {[], js ''.2'', js ''.3''} \<and> match_ext ext"
proof -
  assume "match_tail s = Some m4"
  from match_tail_cases [OF this] obtain ext where e: "match_ext ext" and
    c: "(m4 = None \<and> s = 46 # ext) \<or> (\<exists>a. (a = 50 \<or> a = 51) \<and> m4 = Some [a] \<and> s = 46 # a # 46 # ext)"
    by blast
  from c consider "s = [] @ 46 # ext" | "s = [46, 50] @ 46 # ext" | "s = [46, 51] @ 46 # ext"
    by fastforce
  then show ?thesis
  proof cases
    case 1 then show ?thesis using e by blast
  next
    case 2 
    have "js ''.2'' = [46, 50]" by simp
    then show ?thesis using e 2 by (intro exI [of _ "[46, 50]"] exI [of _ ext]) simp
  next
    case 3
    then show ?thesis using e by (intro exI [of _ "[46, 51]"] exI [of _ ext]) simp
  qed
qed

lemma match_tail_total:
  assumes "a \<in> {[], js ''.2'', js ''.3''}" "match_ext ext"
  shows "\<exists>m4. match_tail (a @ 46 # ext) = Some m4"
proof -
  from assms(1) consider "a = []" | "a = [46, 50]" | "a = [46, 51]" by auto
  then show ?thesis
  proof cases
    case 1 then show ?thesis using match_tail_plain [OF assms(2)] by simp
  next
    case 2 then show ?thesis using match_tail_attr [OF assms(2), of 50] by simp
  next
    case 3 then show ?thesis using match_tail_attr [OF assms(2), of 51] by simp
  qed
qed



lemma match_name_Some: "match_name name \<noteq> None \<Longrightarrow> \<exists>tag m2 m3 m4. match_name name = Some (tag, m2, m3, m4)" by auto

lemma pattern_of_match: "match_name name = Some (tag, m2, m3, m4) \<Longrightarrow> matches_pattern name"
proof -
  assume m: "match_name name = Some (tag, m2, m3, m4)"
  from match_name_cases [OF m] obtain rest where
    n: "name = tag @ 46 # rest" and tag: "map canonicalize tag \<in> {js ''F.F'', js ''M.F''}"
    and f: "match_face rest = Some (m2, m3, m4)" by (elim exE conjE)
  from match_face_cases [OF f] obtain h rest' where
    r: "rest = m2 @ 95 # h # rest'" and ds: "m2 \<noteq> []" "list_all is_digit m2"
    and h: "h = 49 \<or> h = 50 \<or> h = 51" and t: "match_tail rest' = Some m4" by (elim exE conjE)
  from match_tail_pattern [OF t] obtain a ext where
    r': "rest' = a @ 46 # ext" and a: "a \<in> {[], js ''.2'', js ''.3''}" and e: "match_ext ext"
    by (elim exE conjE)
  have n': "name = tag @ js ''.'' @ m2 @ js ''_'' @ [h] @ a @ js ''.'' @ ext"
    using n r r' by simp
  have h': "[h] \<in> {js ''1'', js ''2'', js ''3''}" using h by auto
  have e': "map canonicalize ext \<in> {js ''PNG'', js ''JPG'', js ''JPEG''}"
    using e unfolding match_ext_def .
  show "matches_pattern name"
    unfolding matches_pattern_def
    by (rule exI [of _ tag], rule exI [of _ m2], rule exI [of _ h], rule exI [of _ a],
        rule exI [of _ ext]) (intro conjI n' tag ds h' a e')
qed

lemma match_of_pattern: "matches_pattern name \<Longrightarrow> \<exists>r. match_name name = Some r"
proof -
  assume "matches_pattern name"
  then obtain tag ds h a ext where
    n: "name = tag @ js ''.'' @ ds @ js ''_'' @ [h] @ a @ js ''.'' @ ext"
    and tag: "map canonicalize tag \<in> {js ''F.F'', js ''M.F''}"
    and ds: "ds \<noteq> []" "list_all is_digit ds"
    and h: "[h] \<in> {js ''1'', js ''2'', js ''3''}"
    and a: "a \<in> {[], js ''.2'', js ''.3''}"
    and e: "map canonicalize ext \<in> {js ''PNG'', js ''JPG'', js ''JPEG''}"
    unfolding matches_pattern_def by (elim exE conjE)
  have e': "match_ext ext" using e unfolding match_ext_def .
  from match_tail_total [OF a e'] obtain m4 where t: "match_tail (a @ 46 # ext) = Some m4" ..
  have h': "h = 49 \<or> h = 50 \<or> h = 51" using h by simp
  have f: "match_face (ds @ 95 # h # a @ 46 # ext) = Some (ds, [h], m4)"
    by (rule match_face_intro [OF ds h' t])
  have "match_name (tag @ 46 # ds @ 95 # h # a @ 46 # ext) = Some (tag, ds, [h], m4)"
    by (rule match_name_intro [OF tag f])
  then show ?thesis using n by simp
qed

lemma match_name_pattern: "match_name name \<noteq> None \<longleftrightarrow> matches_pattern name"
  using match_name_Some [of name] pattern_of_match [of name] match_of_pattern [of name] by auto

lemma to_string_no_slash: "47 \<notin> set (to_string n)"
  using to_string_digits [of n] by (auto simp: list_all_iff is_digit_def)

lemma last_split_dir:
  "47 \<notin> set name \<Longrightarrow> last (split 47 (dir @ 47 # name)) = name"
  by (simp add: split_def last_split_from_append)

lemma last_split_plain:
  "47 \<notin> set name \<Longrightarrow> last (split 47 name) = name"
  by (simp add: split_def last_split_from_no_sep)

lemma match_name_file_name:
  assumes tag: "sexTag = js ''M.F'' \<or> sexTag = js ''F.F''"
    and h: "h \<in> set HEIGHT_CODES" and a: "a \<in> set ATTR_CODES"
  shows "match_name (file_name sexTag face h a) =
           Some (sexTag, to_string face, h, if a = [] then None else Some (tl a))"
proof -
  obtain hc where hc: "h = [hc]" "hc = 49 \<or> hc = 50 \<or> hc = 51"
    using h by (auto simp: HEIGHT_CODES_def)
  have e: "match_ext (js ''png'')" by (simp add: match_ext_def canonicalize_def)
  have t: "match_tail (a @ 46 # js ''png'') = Some (if a = [] then None else Some (tl a))"
    using a match_tail_plain [OF e] match_tail_attr [OF e, of 50] match_tail_attr [OF e, of 51]
    by (auto simp: ATTR_CODES_def)
  have f: "match_face (to_string face @ 95 # hc # a @ 46 # js ''png'')
             = Some (to_string face, [hc], if a = [] then None else Some (tl a))"
    by (rule match_face_intro [OF to_string_nonempty to_string_digits hc(2) t])
  have c: "map canonicalize sexTag \<in> {js ''F.F'', js ''M.F''}"
    using tag by (auto simp: canonicalize_def)
  have "file_name sexTag face h a = sexTag @ 46 # to_string face @ 95 # hc # a @ 46 # js ''png''"
    by (simp add: file_name_def IMAGE_EXT_def hc)
  then show ?thesis using match_name_intro [OF c f] hc by simp
qed

lemma file_name_no_slash:
  assumes tag: "sexTag = js ''M.F'' \<or> sexTag = js ''F.F''"
    and h: "h \<in> set HEIGHT_CODES" and a: "a \<in> set ATTR_CODES"
  shows "47 \<notin> set (file_name sexTag face h a)"
  using assms to_string_no_slash [of face]
  by (auto simp: file_name_def IMAGE_EXT_def HEIGHT_CODES_def ATTR_CODES_def)

lemma parseInt10_to_string: "n \<le> 2 ^ 53 \<Longrightarrow> parseInt10 (to_string n) = Exact n"
  by (simp add: parseInt10_def to_string_nonempty to_string_digits decimal_value_to_string)

lemma parseMeta_file_name:
  assumes tag: "sexTag = js ''M.F'' \<or> sexTag = js ''F.F''"
    and h: "h \<in> set HEIGHT_CODES" and a: "a \<in> set ATTR_CODES" and face: "face \<le> 2 ^ 53"
  shows "parseMeta (dir @ 47 # file_name sexTag face h a) =
           \<lparr>sex = Some (if sexTag = js ''F.F'' then js ''Female'' else js ''Male''),
            face_id = Some (Exact face),
            height_code = Some h,
            height_label = Some (if h = js ''1'' then js ''Tall''
                                 else if h = js ''2'' then js ''Average'' else js ''Short''),
            attract_code = (if a = [] then None else Some (tl a)),
            attract_label = Some (if a = [] then js ''Attractive''
                                  else if a = js ''.2'' then js ''LessAttractive''
                                  else js ''VeryUnattractive'')\<rparr>"
proof -
  have n: "last (split 47 (dir @ 47 # file_name sexTag face h a)) = file_name sexTag face h a"
    by (rule last_split_dir [OF file_name_no_slash [OF tag h a]])
  have m: "match_name (file_name sexTag face h a) =
           Some (sexTag, to_string face, h, if a = [] then None else Some (tl a))"
    by (rule match_name_file_name [OF tag h a])
  have a': "a = [] \<or> a = [46, 50] \<or> a = [46, 51]" using a by (auto simp: ATTR_CODES_def)
  show ?thesis
    unfolding parseMeta_def n Let_def m using a' face
    by (auto simp: parseInt10_to_string)
qed


lemma parseMeta_file_name_plain:
  assumes tag: "sexTag = js ''M.F'' \<or> sexTag = js ''F.F''"
    and h: "h \<in> set HEIGHT_CODES" and a: "a \<in> set ATTR_CODES" and face: "face \<le> 2 ^ 53"
  shows "parseMeta (file_name sexTag face h a) = parseMeta (js ''all_images/'' @ file_name sexTag face h a)"
proof -
  have n: "last (split 47 (file_name sexTag face h a)) = file_name sexTag face h a"
    by (rule last_split_plain [OF file_name_no_slash [OF tag h a]])
  have n': "last (split 47 (js ''all_images'' @ 47 # file_name sexTag face h a)) = file_name sexTag face h a"
    by (rule last_split_dir [OF file_name_no_slash [OF tag h a]])
  show ?thesis using n n' by (simp add: parseMeta_def)
qed

lemma faces: "[1 ..< Suc NUM_FACES_PER_SEX] = [1, 2, 3, 4, 5, 6]"
  by (simp add: NUM_FACES_PER_SEX_def upt_rec)



lemma spec_grammar_file_name:
  assumes "spec_filename_grammar name"
  shows "\<exists>tag face h a. name = file_name tag face h a
           \<and> (tag = js ''M.F'' \<or> tag = js ''F.F'')
           \<and> 1 \<le> face \<and> face \<le> NUM_FACES_PER_SEX
           \<and> h \<in> set HEIGHT_CODES \<and> a \<in> set ATTR_CODES"
proof -
  from assms obtain tag face h a where
    n: "name = tag @ js ''.'' @ to_string face @ js ''_'' @ h @ a @ js ''.png''"
    and t: "tag = js ''M.F'' \<or> tag = js ''F.F''"
    and f: "1 \<le> face" "face \<le> NUM_FACES_PER_SEX"
    and h: "h = js ''1'' \<or> h = js ''2'' \<or> h = js ''3''"
    and a: "a = [] \<or> a = js ''.2'' \<or> a = js ''.3''"
    unfolding spec_filename_grammar_def by (elim exE conjE)
  have n': "name = file_name tag face h a" unfolding n by (simp add: file_name_def IMAGE_EXT_def)
  have h': "h \<in> set HEIGHT_CODES" using h by (auto simp: HEIGHT_CODES_def)
  have a': "a \<in> set ATTR_CODES" using a by (auto simp: ATTR_CODES_def)
  show ?thesis
    by (rule exI [of _ tag], rule exI [of _ face], rule exI [of _ h], rule exI [of _ a])
       (intro conjI n' t f h' a')
qed

lemma spec_grammar_match:
  assumes "spec_filename_grammar name"
  shows "\<exists>tag face h m4. match_name name = Some (tag, to_string face, h, m4)
           \<and> (tag = js ''M.F'' \<or> tag = js ''F.F'') \<and> 1 \<le> face \<and> face \<le> NUM_FACES_PER_SEX"
proof -
  from spec_grammar_file_name [OF assms] obtain tag face h a where
    n: "name = file_name tag face h a"
    and t: "tag = js ''M.F'' \<or> tag = js ''F.F''"
    and f: "1 \<le> face" "face \<le> NUM_FACES_PER_SEX"
    and h: "h \<in> set HEIGHT_CODES" and a: "a \<in> set ATTR_CODES"
    by (elim exE conjE)
  have m: "match_name name = Some (tag, to_string face, h, if a = [] then None else Some (tl a))"
    unfolding n by (rule match_name_file_name [OF t h a])
  show ?thesis
    by (rule exI [of _ tag], rule exI [of _ face], rule exI [of _ h],
        rule exI [of _ "if a = [] then None else Some (tl a)"])
       (intro conjI m t f)
qed

lemma spec_grammar_in_pattern:
  assumes "spec_filename_grammar name"
  shows "matches_pattern name"
proof -
  from spec_grammar_match [OF assms] obtain tag face h m4 where
    "match_name name = Some (tag, to_string face, h, m4)" by (elim exE conjE)
  then show ?thesis by (rule pattern_of_match)
qed

lemma parseMeta_null_iff:
  "parseMeta imgPath = null_meta \<longleftrightarrow> \<not> matches_pattern (last (split 47 imgPath))"
proof (cases "match_name (last (split 47 imgPath))")
  case None
  then have "\<not> matches_pattern (last (split 47 imgPath))"
    unfolding match_name_pattern [symmetric] by simp
  moreover have "parseMeta imgPath = null_meta" using None by (simp add: parseMeta_def)
  ultimately show ?thesis by simp
next
  case (Some r)
  then have "matches_pattern (last (split 47 imgPath))"
    unfolding match_name_pattern [symmetric] by simp
  moreover have "sex (parseMeta imgPath) \<noteq> None"
    using Some by (cases r) (simp add: parseMeta_def Let_def)
  then have "parseMeta imgPath \<noteq> null_meta" by (auto simp: null_meta_def)
  ultimately show ?thesis by simp
qed

lemma face_seven_outside_spec_grammar: "\<not> spec_filename_grammar (js ''M.F.7_1.png'')"
proof
  assume "spec_filename_grammar (js ''M.F.7_1.png'')"
  from spec_grammar_match [OF this] obtain tag face h m4 where
    m: "match_name (js ''M.F.7_1.png'') = Some (tag, to_string face, h, m4)"
    and f: "face \<le> NUM_FACES_PER_SEX" by (elim exE conjE)
  have "match_name (js ''M.F.7_1.png'') = Some (js ''M.F'', js ''7'', js ''1'', None)"
    by (simp add: parser_defs)
  then have "to_string face = js ''7''" using m by simp
  then have "decimal_value (to_string face) = decimal_value (js ''7'')" by simp
  then have "face = 7" unfolding decimal_value_to_string by (simp add: decimal_value_def)
  then show False using f by (simp add: NUM_FACES_PER_SEX_def)
qed

lemma face_zero_outside_spec_grammar: "\<not> spec_filename_grammar (js ''F.F.0_1.jpeg'')"
proof
  assume "spec_filename_grammar (js ''F.F.0_1.jpeg'')"
  from spec_grammar_match [OF this] obtain tag face h m4 where
    m: "match_name (js ''F.F.0_1.jpeg'') = Some (tag, to_string face, h, m4)"
    and f: "1 \<le> face" by (elim exE conjE)
  have "match_name (js ''F.F.0_1.jpeg'') = Some (js ''F.F'', js ''0'', js ''1'', None)"
    by (simp add: parser_defs)
  then have "to_string face = js ''0''" using m by simp
  then have "decimal_value (to_string face) = decimal_value (js ''0'')" by simp
  then have "face = 0" unfolding decimal_value_to_string by (simp add: decimal_value_def)
  then show False using f by simp
qed

section \<open>Facts about the participant id\<close>

lemma decode_no_percent: "37 \<notin> set s \<Longrightarrow> decodeURIComponent s = Inr s"
  by (induction s) auto

lemma decode_nonempty: "decodeURIComponent s = Inr r \<Longrightarrow> s \<noteq> [] \<Longrightarrow> r \<noteq> []"
  by (cases s) (auto simp: utf16_encode_def split: if_splits sum.splits option.splits)

lemma decode_examples:
  "decodeURIComponent (js ''ABC123'') = Inr (js ''ABC123'')"
  "decodeURIComponent (js ''a%2541'') = Inr (js ''a%41'')"
  "decodeURIComponent (js ''a%41'') = Inr (js ''aA'')"
  "decodeURIComponent (js ''100%'') = Inl URIError"
  "decodeURIComponent (js ''%E2%82%AC'') = Inr [8364]"
  "decodeURIComponent (js ''%C0%80'') = Inl URIError"
  by (simp_all add: parse_hex_octet_def hex_digit_value_def leading_ones_def
      utf8_code_point_def is_continuation_octet_def utf16_encode_def numeral_2_eq_2)

lemma or_else_getParam:
  "or_else (getParam pg name) b =
     (case search_params pg name of
        None \<Rightarrow> b
      | Some m \<Rightarrow> if m = [] then b
                  else (case decodeURIComponent m of Inl e \<Rightarrow> Inl e | Inr s \<Rightarrow> Inr (Some s)))"
proof (cases "search_params pg name")
  case None
  then show ?thesis by (simp add: or_else_def getParam_def)
next
  case (Some m)
  show ?thesis
  proof (cases "m = []")
    case True
    then show ?thesis using Some by (simp add: or_else_def getParam_def)
  next
    case False
    show ?thesis
    proof (cases "decodeURIComponent m")
      case (Inl e)
      then show ?thesis using Some False by (simp add: or_else_def getParam_def)
    next
      case (Inr s)
      then have "s \<noteq> []" using False by (rule decode_nonempty)
      then show ?thesis using Some False Inr by (simp add: or_else_def getParam_def)
    qed
  qed
qed

lemma or_else_assoc: "or_else (or_else a b) c = or_else a (or_else b c)"
  by (auto simp: or_else_def split: option.splits sum.splits)

lemma participant_id_or_else:
  "participant_id pg =
     (case or_else (getParam pg (js ''pid''))
             (or_else (getParam pg (js ''workerId''))
                (or_else (getParam pg (js ''PROLIFIC_PID'')) (Inr (Some (safeUUID pg))))) of
        Inl e \<Rightarrow> Inl e
      | Inr None \<Rightarrow> Inr (safeUUID pg)
      | Inr (Some s) \<Rightarrow> if s = [] then Inr (safeUUID pg) else Inr s)"
proof -
  have "(case or_else a (Inr (Some u)) of
           Inl e \<Rightarrow> Inl e | Inr None \<Rightarrow> Inr u | Inr (Some s) \<Rightarrow> if s = [] then Inr u else Inr s)
        = (case a of
             Inl e \<Rightarrow> Inl e | Inr None \<Rightarrow> Inr u | Inr (Some s) \<Rightarrow> if s = [] then Inr u else Inr s)"
    for a :: "error + jsstring option" and u
    by (simp add: or_else_def split: sum.splits option.splits)
  then show ?thesis
    unfolding participant_id_def or_else_assoc [symmetric] by simp
qed

lemma participant_id_unfold:
  "participant_id pg =
     (case
        (let try = (\<lambda>name rest. case search_params pg name of
                    None \<Rightarrow> rest
                  | Some m \<Rightarrow> if m = [] then rest
                              else (case decodeURIComponent m of
                                      Inl e \<Rightarrow> Inl e | Inr s \<Rightarrow> Inr (Some s)))
         in try (js ''pid'') (try (js ''workerId'') (try (js ''PROLIFIC_PID'')
              (Inr (Some (safeUUID pg)))))) of
        Inl e \<Rightarrow> Inl e
      | Inr None \<Rightarrow> Inr (safeUUID pg)
      | Inr (Some s) \<Rightarrow> if s = [] then Inr (safeUUID pg) else Inr s)"
  by (simp only: participant_id_or_else or_else_getParam Let_def)

lemma participant_id_no_percent:
  assumes "\<And>name v. search_params pg name = Some v \<Longrightarrow> 37 \<notin> set v"
  shows "participant_id pg = Inr (first_nonempty_param pg)"
  using assms [of "js ''pid''"] assms [of "js ''workerId''"] assms [of "js ''PROLIFIC_PID''"]
  by (auto simp: participant_id_unfold first_nonempty_param_def decode_no_percent
      split: option.splits)

section \<open>Facts about the shuffle and the timeline\<close>

lemma shuffle_loop_mset:
  "m \<le> length xs \<Longrightarrow> mset (fst (shuffle_loop m rnd xs)) = mset xs"
proof (induction m arbitrary: rnd xs)
  case 0
  then show ?case by simp
next
  case (Suc m)
  let ?i = "rnd 0 mod Suc m"
  have i: "?i < length xs" using Suc.prems by (simp add: less_le_trans [of "rnd 0 mod Suc m" "Suc m"])
  have m: "m < length xs" using Suc.prems by simp
  have "mset (xs[m := xs ! ?i, ?i := xs ! m]) = mset xs"
    by (rule mset_swap [OF i m])
  moreover have "m \<le> length (xs[m := xs ! ?i, ?i := xs ! m])" using m by simp
  ultimately show ?case using Suc.IH [of "xs[m := xs ! ?i, ?i := xs ! m]"] by (simp add: Let_def)
qed

lemma shuffle_mset: "mset (fst (shuffle rnd xs)) = mset xs"
  by (simp add: shuffle_def shuffle_loop_mset)

lemma shuffle_length: "length (fst (shuffle rnd xs)) = length xs"
  using shuffle_mset [of rnd xs] by (metis size_mset)

lemma shuffle_distinct: "distinct (fst (shuffle rnd xs)) = distinct xs"
  using shuffle_mset [of rnd xs] by (metis mset_eq_imp_distinct_iff)

lemma shuffle_loop_rest: "snd (shuffle_loop m rnd xs) = (\<lambda>k. rnd (k + m))"
  by (induction m arbitrary: rnd xs) (simp_all add: Let_def)

lemma shuffle_rest: "snd (shuffle rnd xs) = (\<lambda>k. rnd (k + length xs))"
  by (simp add: shuffle_def shuffle_loop_rest)

lemma shuffle_two:
  "fst (shuffle rnd [a, b]) = (if rnd 0 mod 2 = 0 then [b, a] else [a, b])"
proof -
  have "rnd 0 mod 2 = 0 \<or> rnd 0 mod 2 = 1" by auto
  then show ?thesis
    by (auto simp: shuffle_def Let_def numeral_2_eq_2)
qed
lemma length_buildFiles: "length (buildFiles t) = 54"
  unfolding buildFiles_def faces HEIGHT_CODES_def ATTR_CODES_def by simp
lemma distinct_malePaths: "distinct (malePaths @ femalePaths)"
  unfolding malePaths_def femalePaths_def maleFiles_def femaleFiles_def buildFiles_def faces HEIGHT_CODES_def ATTR_CODES_def
  by (simp add: file_name_def to_string.simps IMAGE_EXT_def)

lemma makeImageTrial_inj: "inj (makeImageTrial label)"
  by (rule injI) (simp add: makeImageTrial_def)

lemma distinct_paths: "distinct malePaths" "distinct femalePaths"
  using distinct_malePaths by simp_all

lemma length_paths: "length malePaths = 54" "length femalePaths = 54"
  by (simp_all add: malePaths_def femalePaths_def maleFiles_def femaleFiles_def length_buildFiles)

lemma makeBlockTrials_mset:
  "mset (fst (makeBlockTrials rnd label paths)) = mset (map (makeImageTrial label) paths)"
  by (simp add: makeBlockTrials_def shuffle_mset)

lemma makeBlockTrials_distinct:
  "distinct paths \<Longrightarrow> distinct (fst (makeBlockTrials rnd label paths))"
  by (simp add: makeBlockTrials_def shuffle_distinct distinct_map
      inj_on_subset [OF makeImageTrial_inj])

lemma makeBlockTrials_length: "length (fst (makeBlockTrials rnd label paths)) = length paths"
  by (simp add: makeBlockTrials_def shuffle_length)

lemma trial_images_mset:
  "mset (trial_images xs) =
     (\<Sum>s \<in># mset xs. case s of JsPsychSurveyHtmlForm t \<Rightarrow> {#image t#} | _ \<Rightarrow> {#})"
  by (induction xs rule: trial_images.induct) simp_all

lemma trial_images_make: "trial_images (map (makeImageTrial label) paths) = paths"
  by (induction paths) (simp_all add: makeImageTrial_def)

lemma trial_images_block:
  "mset (trial_images (fst (makeBlockTrials rnd label paths))) = mset paths"
proof -
  have "mset (trial_images (fst (makeBlockTrials rnd label paths))) =
          mset (trial_images (map (makeImageTrial label) paths))"
    unfolding trial_images_mset makeBlockTrials_mset ..
  then show ?thesis by (simp add: trial_images_make)
qed

lemma trial_images_append: "trial_images (xs @ ys) = trial_images xs @ trial_images ys"
  by (induction xs rule: trial_images.induct) simp_all

lemma blocks_cases:
  "blocks rnd = (if snd (femaleTrials rnd) 0 mod 2 = 0
                 then [\<lparr>intro = femaleIntro, trials = fst (femaleTrials rnd)\<rparr>,
                       \<lparr>intro = maleIntro, trials = fst (maleTrials rnd)\<rparr>]
                 else [\<lparr>intro = maleIntro, trials = fst (maleTrials rnd)\<rparr>,
                       \<lparr>intro = femaleIntro, trials = fst (femaleTrials rnd)\<rparr>])"
  by (simp only: blocks_def shuffle_two)

lemma rest_after_trials: "snd (femaleTrials rnd) = (\<lambda>k. rnd (k + 108))"
  by (simp add: femaleTrials_def maleTrials_def makeBlockTrials_def shuffle_rest length_paths
      add.assoc)

lemma timeline_cases:
  "timeline rnd =
     (if rnd 108 mod 2 = 0
      then [fullscreen, preload, welcome_screen, instructions, femaleIntro]
             @ fst (femaleTrials rnd) @ [maleIntro] @ fst (maleTrials rnd) @ [thankYou]
      else [fullscreen, preload, welcome_screen, instructions, maleIntro]
             @ fst (maleTrials rnd) @ [femaleIntro] @ fst (femaleTrials rnd) @ [thankYou])"
  by (simp add: timeline_def blocks_cases rest_after_trials)

lemma trial_images_timeline:
  "mset (trial_images (timeline rnd)) = mset (malePaths @ femalePaths)"
  by (simp add: timeline_cases trial_images_append maleTrials_def femaleTrials_def
      trial_images_block fullscreen_def preload_def welcome_screen_def instructions_def
      maleIntro_def femaleIntro_def makeBlockIntro_def thankYou_def)

lemma length_timeline: "length (timeline rnd) = 115"
  by (simp add: timeline_cases maleTrials_def femaleTrials_def makeBlockTrials_length
      length_paths)

lemma length_trial_images_timeline: "length (trial_images (timeline rnd)) = 108"
proof -
  have "size (mset (trial_images (timeline rnd))) = size (mset (malePaths @ femalePaths))"
    by (simp only: trial_images_timeline)
  then show ?thesis by (simp add: length_paths)
qed

section \<open>Facts about the gate\<close>

lemma distinct_qualifying: "distinct qualifying"
  by (simp add: qualifying_def)

lemma remove1_filter:
  "distinct xs \<Longrightarrow> remove1 x (filter P xs) = filter (\<lambda>y. P y \<and> y \<noteq> x) xs"
  by (induction xs) (auto simp: remove1_idem)

lemma sliders_checkAllTouched: "sliders (checkAllTouched f) = sliders f"
  by (simp add: checkAllTouched_def Let_def)

lemma sliders_on_load:
  "sliders (on_load rendered_form) = replicate 4 \<lparr>touched = Some (js ''0''), once = qualifying\<rparr>"
  by (simp add: on_load_def rendered_form_def Let_def sliders_checkAllTouched)

lemma sliders_dispatch:
  "sliders (dispatch f (j, e)) =
     (if j < length (sliders f) \<and> e \<in> set (once (sliders f ! j))
      then (sliders f)[j := (sliders f ! j)\<lparr>once := remove1 e (once (sliders f ! j)),
                                               touched := Some (js ''1'')\<rparr>]
      else sliders f)"
  by (simp add: dispatch_def mark_def sliders_checkAllTouched)

lemma gate_after_snoc: "gate_after (evs @ [e]) = dispatch (gate_after evs) e"
  by (simp add: gate_after_def)

lemma gate_after_Nil: "gate_after [] = on_load rendered_form"
  by (simp add: gate_after_def)
lemma sliders_after:
  "length (sliders (gate_after evs)) = 4 \<and>
   (\<forall>i<4. sliders (gate_after evs) ! i =
      \<lparr>touched = Some (if \<exists>ev\<in>set qualifying. (i, ev) \<in> set evs then js ''1'' else js ''0''),
       once = filter (\<lambda>ev. (i, ev) \<notin> set evs) qualifying\<rparr>)"
proof (induction evs rule: rev_induct)
  case Nil
  show ?case by (simp add: gate_after_Nil sliders_on_load)
next
  case (snoc x evs)
  obtain j e where x: "x = (j, e)" by (cases x)
  let ?f = "gate_after evs"
  from snoc have len: "length (sliders ?f) = 4" and
    ih: "\<And>i. i < 4 \<Longrightarrow> sliders ?f ! i =
      \<lparr>touched = Some (if \<exists>ev\<in>set qualifying. (i, ev) \<in> set evs then js ''1'' else js ''0''),
       once = filter (\<lambda>ev. (i, ev) \<notin> set evs) qualifying\<rparr>"
    by simp_all
  show ?case
  proof (cases "j < 4 \<and> e \<in> set qualifying \<and> (j, e) \<notin> set evs")
    case True
    then have fire: "j < length (sliders ?f) \<and> e \<in> set (once (sliders ?f ! j))"
      using len ih [of j] by simp
    have s0: "sliders (gate_after (evs @ [x])) =
               (sliders ?f)[j := (sliders ?f ! j)\<lparr>once := remove1 e (once (sliders ?f ! j)),
                                                  touched := Some (js ''1'')\<rparr>]"
      unfolding gate_after_snoc x sliders_dispatch by (rule if_P [OF fire])
    have s: "sliders (gate_after (evs @ [x])) =
               (sliders ?f)[j := \<lparr>touched = Some (js ''1''), once = remove1 e (once (sliders ?f ! j))\<rparr>]"
      unfolding s0 using ih [of j] True by simp
    have "sliders (gate_after (evs @ [x])) ! i =
      \<lparr>touched = Some (if \<exists>ev\<in>set qualifying. (i, ev) \<in> set (evs @ [x]) then js ''1'' else js ''0''),
       once = filter (\<lambda>ev. (i, ev) \<notin> set (evs @ [x])) qualifying\<rparr>" if i: "i < 4" for i
    proof (cases "i = j")
      case True
      have "once (sliders ?f ! j) = filter (\<lambda>ev. (j, ev) \<notin> set evs) qualifying"
        using ih [of j] i True by simp
      then have "remove1 e (once (sliders ?f ! j)) = filter (\<lambda>ev. (j, ev) \<notin> set evs \<and> ev \<noteq> e) qualifying"
        by (simp add: remove1_filter [OF distinct_qualifying])
      moreover have "\<exists>ev\<in>set qualifying. (j, ev) \<in> set (evs @ [x])"
        using \<open>j < 4 \<and> e \<in> set qualifying \<and> (j, e) \<notin> set evs\<close> x by auto
      ultimately show ?thesis using True len i x unfolding s
        by (simp del: set_append add: conj_commute) (auto intro: filter_cong)
    next
      case False
      then have "sliders (gate_after (evs @ [x])) ! i = sliders ?f ! i"
        unfolding s by simp
      then show ?thesis using ih [OF i] False x by auto
    qed
    then show ?thesis using len s by simp
  next
    case False
    then have nofire: "\<not> (j < length (sliders ?f) \<and> e \<in> set (once (sliders ?f ! j)))"
      using len ih [of j] by auto
    have s: "sliders (gate_after (evs @ [x])) = sliders ?f"
      unfolding gate_after_snoc x sliders_dispatch by (rule if_not_P [OF nofire])
    have "sliders ?f ! i =
      \<lparr>touched = Some (if \<exists>ev\<in>set qualifying. (i, ev) \<in> set (evs @ [x]) then js ''1'' else js ''0''),
       once = filter (\<lambda>ev. (i, ev) \<notin> set (evs @ [x])) qualifying\<rparr>" if i: "i < 4" for i
    proof -
      have a: "(\<exists>ev\<in>set qualifying. (i, ev) \<in> set (evs @ [x])) = (\<exists>ev\<in>set qualifying. (i, ev) \<in> set evs)"
        using False i x by auto
      have b: "filter (\<lambda>ev. (i, ev) \<notin> set (evs @ [x])) qualifying = filter (\<lambda>ev. (i, ev) \<notin> set evs) qualifying"
        using False i x by (intro filter_cong) auto
      show ?thesis unfolding a b by (rule ih [OF i])
    qed
    then show ?thesis using len s by simp
  qed
qed

lemma checked_checkAllTouched:
  "button (checkAllTouched f) = Some (\<not> list_all (\<lambda>s. touched s = Some (js ''1'')) (sliders f))
   \<and> msg (checkAllTouched f) =
       Some (if list_all (\<lambda>s. touched s = Some (js ''1'')) (sliders f) then js ''none'' else js ''block'')"
  by (simp add: checkAllTouched_def Let_def)

lemma dispatch_pair:
  "dispatch f (j, e) =
     (if j < length (sliders f) \<and> e \<in> set (once (sliders f ! j))
      then mark j (f\<lparr>sliders :=
                      (sliders f)[j := (sliders f ! j)\<lparr>once := remove1 e (once (sliders f ! j))\<rparr>]\<rparr>)
      else f)"
  by (simp add: dispatch_def)

lemma checked_after:
  "button (gate_after evs) =
     Some (\<not> list_all (\<lambda>s. touched s = Some (js ''1'')) (sliders (gate_after evs)))
   \<and> msg (gate_after evs) =
       Some (if list_all (\<lambda>s. touched s = Some (js ''1'')) (sliders (gate_after evs))
             then js ''none'' else js ''block'')"
proof (induction evs rule: rev_induct)
  case Nil
  have "on_load rendered_form = checkAllTouched (on_load rendered_form)"
    by (simp add: on_load_def rendered_form_def checkAllTouched_def Let_def)
  then show ?case
    unfolding gate_after_Nil using checked_checkAllTouched [of "on_load rendered_form"]
    by (simp add: sliders_checkAllTouched)
next
  case (snoc x evs)
  obtain j e where x: "x = (j, e)" by (cases x)
  let ?f = "gate_after evs"
  show ?case
  proof (cases "j < length (sliders ?f) \<and> e \<in> set (once (sliders ?f ! j))")
    case True
    have "\<exists>g. gate_after (evs @ [x]) = checkAllTouched g"
      unfolding gate_after_snoc x dispatch_pair if_P [OF True] mark_def by (rule exI) (rule refl)
    then obtain g where "gate_after (evs @ [x]) = checkAllTouched g" ..
    then show ?thesis using checked_checkAllTouched [of g] by (simp add: sliders_checkAllTouched)
  next
    case False
    have "gate_after (evs @ [x]) = ?f"
      unfolding gate_after_snoc x dispatch_pair by (rule if_not_P [OF False])
    then show ?thesis using snoc by simp
  qed
qed

lemma all_less_4: "(\<forall>i<4. P i) \<longleftrightarrow> P 0 \<and> P 1 \<and> P 2 \<and> P (3::nat)"
proof
  assume "\<forall>i<4. P i"
  then show "P 0 \<and> P 1 \<and> P 2 \<and> P 3" by simp
next
  assume a: "P 0 \<and> P 1 \<and> P 2 \<and> P 3"
  show "\<forall>i<4. P i"
  proof (intro allI impI)
    fix i :: nat
    assume "i < 4"
    then have "i = 0 \<or> i = 1 \<or> i = 2 \<or> i = 3" by arith
    then show "P i" using a by auto
  qed
qed

lemma all_touched_after:
  "list_all (\<lambda>s. touched s = Some (js ''1'')) (sliders (gate_after evs)) \<longleftrightarrow>
     (\<forall>i<4. \<exists>ev\<in>set qualifying. (i, ev) \<in> set evs)"
proof -
  have "list_all (\<lambda>s. touched s = Some (js ''1'')) (sliders (gate_after evs)) \<longleftrightarrow>
          (\<forall>i<4. touched (sliders (gate_after evs) ! i) = Some (js ''1''))"
    using sliders_after [of evs] by (simp add: list_all_length)
  also have "\<dots> \<longleftrightarrow> (\<forall>i<4. \<exists>ev\<in>set qualifying. (i, ev) \<in> set evs)"
    using sliders_after [of evs] by auto
  finally show ?thesis .
qed

lemma button_after:
  "button (gate_after evs) = Some (\<not> (\<forall>i<4. \<exists>ev\<in>set qualifying. (i, ev) \<in> set evs))"
  using checked_after [of evs] unfolding all_touched_after by simp

lemma msg_after:
  "msg (gate_after evs) =
     Some (if \<forall>i<4. \<exists>ev\<in>set qualifying. (i, ev) \<in> set evs then js ''none'' else js ''block'')"
  using checked_after [of evs] unfolding all_touched_after by simp

section \<open>Facts about the session\<close>

lemma pushes_append: "pushes (xs @ ys) = pushes xs + pushes ys"
  by (induction xs rule: pushes.induct) simp_all

lemma pushes_to_append: "pushes_to c (xs @ ys) = pushes_to c xs @ pushes_to c ys"
  by (induction c xs rule: pushes_to.induct) simp_all

lemma store_on_trial_finish: "store (on_trial_finish b pid w d) = store w"
  by (simp add: on_trial_finish_def saveTrialRow_def Let_def)

lemma trace_on_trial_finish:
  "trace (on_trial_finish b pid w d) =
     trace w @
     (if trial_type d = js ''survey-html-form''
      then Push (js ''responses_stream'') (Stream_row (stream_row_of pid d)) (b (pushes (trace w)))
           # (if b (pushes (trace w)) = Rejected
              then [Console Warn_level (js ''Partial save failed:'')] else [])
      else [])"
  by (simp add: on_trial_finish_def saveTrialRow_def Let_def)

lemma run_entries_reaches_end:
  "length entries \<le> length inps \<Longrightarrow> snd (run_entries b pid w entries inps)"
  by (induction b pid w entries inps rule: run_entries.induct) (simp_all add: Let_def)

lemma run_entries_stops:
  "length inps < length entries \<Longrightarrow> \<not> snd (run_entries b pid w entries inps)"
  by (induction b pid w entries inps rule: run_entries.induct) (simp_all add: Let_def)

lemma run_entries_store:
  "store (fst (run_entries b pid w entries inps)) =
     store w @ map (\<lambda>(s, inp). finish_entry pid s inp) (zip entries inps)"
  by (induction b pid w entries inps rule: run_entries.induct)
     (simp_all add: Let_def store_on_trial_finish)
lemma run_entries_pushes:
  "pushes (trace (fst (run_entries b pid w entries inps))) =
     pushes (trace w) +
     length (filter (\<lambda>d. trial_type d = js ''survey-html-form'')
               (map (\<lambda>(s, inp). finish_entry pid s inp) (zip entries inps)))"
  by (induction b pid w entries inps rule: run_entries.induct)
     (simp_all add: Let_def trace_on_trial_finish pushes_append)
lemma run_entries_responses:
  "pushes_to (js ''responses'') (trace (fst (run_entries b pid w entries inps))) =
     pushes_to (js ''responses'') (trace w)"
  by (induction b pid w entries inps rule: run_entries.induct)
     (simp_all add: Let_def trace_on_trial_finish pushes_to_append)
lemma on_trial_finish_effects:
  "\<exists>ext. trace (on_trial_finish b pid w d) = trace w @ ext
         \<and> (\<forall>e\<in>set ext. (\<exists>r out. e = Push (js ''responses_stream'') (Stream_row r) out)
                         \<or> e = Console Warn_level (js ''Partial save failed:''))"
proof (cases "trial_type d = js ''survey-html-form''")
  case True
  show ?thesis
    unfolding trace_on_trial_finish if_P [OF True]
    by (rule exI, rule conjI, rule refl) auto
next
  case False
  show ?thesis
    unfolding trace_on_trial_finish if_not_P [OF False]
    by (rule exI [of _ "[]"]) simp
qed

lemma run_entries_effects:
  "\<exists>ext. trace (fst (run_entries b pid w entries inps)) = trace w @ ext
         \<and> (\<forall>e\<in>set ext. (\<exists>r out. e = Push (js ''responses_stream'') (Stream_row r) out)
                         \<or> e = Console Warn_level (js ''Partial save failed:''))"
proof (induction b pid w entries inps rule: run_entries.induct)
  case (3 backend pid w s ss inp inps)
  let ?d = "finish_entry pid s inp"
  let ?w1 = "w\<lparr>store := store w @ [?d]\<rparr>"
  let ?w2 = "on_trial_finish backend pid ?w1 ?d"
  from 3 [OF refl refl refl] obtain ext where
    e: "trace (fst (run_entries backend pid ?w2 ss inps)) = trace ?w2 @ ext"
    and a: "\<forall>e\<in>set ext. (\<exists>r out. e = Push (js ''responses_stream'') (Stream_row r) out)
                         \<or> e = Console Warn_level (js ''Partial save failed:'')"
    by (elim exE conjE)
  from on_trial_finish_effects [of backend pid ?w1 ?d] obtain ext0 where
    e0: "trace ?w2 = trace ?w1 @ ext0"
    and a0: "\<forall>e\<in>set ext0. (\<exists>r out. e = Push (js ''responses_stream'') (Stream_row r) out)
                         \<or> e = Console Warn_level (js ''Partial save failed:'')"
    by (elim exE conjE)
  have 1: "trace (fst (run_entries backend pid w (s # ss) (inp # inps))) = trace w @ (ext0 @ ext)"
    using e e0 by (simp add: Let_def)
  have 2: "\<forall>e\<in>set (ext0 @ ext). (\<exists>r out. e = Push (js ''responses_stream'') (Stream_row r) out)
                         \<or> e = Console Warn_level (js ''Partial save failed:'')"
    using a a0 by (simp add: ball_Un)
  show ?case by (rule exI [of _ "ext0 @ ext"]) (rule conjI [OF 1 2])
qed simp_all

lemma upt_shift: "[n ..< Suc (n + k)] = n # [Suc n ..< Suc (n + k)]"
  by (simp add: upt_conv_Cons)
lemma run_entries_stream_values:
  "map fst (pushes_to (js ''responses_stream'') (trace (fst (run_entries b pid w entries inps)))) =
     map fst (pushes_to (js ''responses_stream'') (trace w)) @
     map (\<lambda>d. Stream_row (stream_row_of pid d))
       (filter (\<lambda>d. trial_type d = js ''survey-html-form'')
          (map (\<lambda>(s, inp). finish_entry pid s inp) (zip entries inps)))"
  by (induction b pid w entries inps rule: run_entries.induct)
     (simp_all add: Let_def trace_on_trial_finish pushes_to_append)
lemma run_entries_stream_outcomes:
  "map snd (pushes_to (js ''responses_stream'') (trace (fst (run_entries b pid w entries inps)))) =
     map snd (pushes_to (js ''responses_stream'') (trace w)) @
     map b [pushes (trace w) ..<
            pushes (trace w) +
            length (filter (\<lambda>d. trial_type d = js ''survey-html-form'')
                      (map (\<lambda>(s, inp). finish_entry pid s inp) (zip entries inps)))]"
proof (induction b pid w entries inps rule: run_entries.induct)
  case (3 backend pid w s ss inp inps)
  let ?d = "finish_entry pid s inp"
  let ?w1 = "w\<lparr>store := store w @ [?d]\<rparr>"
  let ?w2 = "on_trial_finish backend pid ?w1 ?d"
  note ih = 3 [OF refl refl refl]
  show ?case
  proof (cases "trial_type ?d = js ''survey-html-form''")
    case True
    have p: "pushes (trace ?w2) = Suc (pushes (trace w))"
      using True by (simp add: trace_on_trial_finish pushes_append)
    have q: "map snd (pushes_to (js ''responses_stream'') (trace ?w2)) =
               map snd (pushes_to (js ''responses_stream'') (trace w)) @ [backend (pushes (trace w))]"
      using True by (simp add: trace_on_trial_finish pushes_to_append)
    show ?thesis using True ih unfolding p q
      by (simp add: Let_def upt_shift del: upt_Suc)
  next
    case False
    have p: "trace ?w2 = trace w"
      using False by (simp add: trace_on_trial_finish)
    show ?thesis using False ih unfolding p by (simp add: Let_def)
  qed
qed simp_all
lemma run_entries_warnings:
  "length (filter (\<lambda>e. e = Console Warn_level (js ''Partial save failed:''))
             (trace (fst (run_entries b pid w entries inps)))) =
     length (filter (\<lambda>e. e = Console Warn_level (js ''Partial save failed:'')) (trace w)) +
     length (filter (\<lambda>k. b k = Rejected)
       [pushes (trace w) ..<
            pushes (trace w) +
            length (filter (\<lambda>d. trial_type d = js ''survey-html-form'')
                      (map (\<lambda>(s, inp). finish_entry pid s inp) (zip entries inps)))])"
proof (induction b pid w entries inps rule: run_entries.induct)
  case (3 backend pid w s ss inp inps)
  let ?d = "finish_entry pid s inp"
  let ?w1 = "w\<lparr>store := store w @ [?d]\<rparr>"
  let ?w2 = "on_trial_finish backend pid ?w1 ?d"
  note ih = 3 [OF refl refl refl]
  show ?case
  proof (cases "trial_type ?d = js ''survey-html-form''")
    case True
    have p: "pushes (trace ?w2) = Suc (pushes (trace w))"
      using True by (simp add: trace_on_trial_finish pushes_append)
    have q: "length (filter (\<lambda>e. e = Console Warn_level (js ''Partial save failed:'')) (trace ?w2)) =
             length (filter (\<lambda>e. e = Console Warn_level (js ''Partial save failed:'')) (trace w)) +
             (if backend (pushes (trace w)) = Rejected then 1 else 0)"
      using True by (simp add: trace_on_trial_finish)
    show ?thesis using True ih unfolding p q
      by (simp add: Let_def upt_shift del: upt_Suc)
  next
    case False
    have p: "trace ?w2 = trace w"
      using False by (simp add: trace_on_trial_finish)
    show ?thesis using False ih unfolding p by (simp add: Let_def)
  qed
qed simp_all
lemma rating_images:
  "length entries \<le> length inps \<Longrightarrow>
   map row_image (map final_row
     (filter (\<lambda>d. trial_type d = js ''survey-html-form'')
        (map (\<lambda>(s, inp). finish_entry pid s inp) (zip entries inps)))) =
   map Some (trial_images entries)"
proof (induction entries arbitrary: inps)
  case Nil
  show ?case by simp
next
  case (Cons s ss)
  then obtain inp inps' where i: "inps = inp # inps'" by (cases inps) auto
  then have "length ss \<le> length inps'" using Cons.prems by simp
  from Cons.IH [OF this] show ?case unfolding i
    by (cases s) (simp_all add: finish_entry_def final_row_def)
qed
lemma trace_on_finish:
  "trace (on_finish b url pid w) =
     trace w @
     Push (js ''responses'')
       (Session_payload
          \<lparr>payload_participant_id = pid,
           payload_trials = map final_row
             (filter (\<lambda>d. trial_type d = js ''survey-html-form'') (store w)),
           client_version = js ''v1'', payload_createdAt = TIMESTAMP\<rparr>)
       (b (pushes (trace w)))
     # (case b (pushes (trace w)) of
          Pending \<Rightarrow> []
        | Accepted \<Rightarrow> Console Log_level (js ''Firebase final save OK'')
                      # (if url \<noteq> [] then [SetTimeout 1200 url] else [])
        | Rejected \<Rightarrow> Console Error_level (js ''Firebase final save failed:'')
                      # (if url \<noteq> [] then [SetTimeout 1200 url] else []))"
  by (simp add: on_finish_def Let_def split: outcome.splits)

lemma store_on_finish: "store (on_finish b url pid w) = store w"
  by (simp add: on_finish_def Let_def split: outcome.splits)

lemma run_complete:
  "length entries \<le> length inps \<Longrightarrow>
   jsPsych_run b url pid entries inps =
     on_finish b url pid (fst (run_entries b pid \<lparr>store = [], trace = []\<rparr> entries inps))"
  using run_entries_reaches_end [where entries = entries and inps = inps and b = b and pid = pid
      and w = "\<lparr>store = [], trace = []\<rparr>"]
  by (auto simp: jsPsych_run_def split: prod.splits bool.splits)

lemma run_incomplete:
  "length inps < length entries \<Longrightarrow>
   jsPsych_run b url pid entries inps =
     fst (run_entries b pid \<lparr>store = [], trace = []\<rparr> entries inps)"
  using run_entries_stops [where entries = entries and inps = inps and b = b and pid = pid
      and w = "\<lparr>store = [], trace = []\<rparr>"]
  by (auto simp: jsPsych_run_def split: prod.splits bool.splits)

lemma rating_count:
  assumes "length (timeline rnd) \<le> length inps"
  shows "length (filter (\<lambda>d. trial_type d = js ''survey-html-form'')
                   (map (\<lambda>(s, inp). finish_entry pid s inp) (zip (timeline rnd) inps))) = 108"
proof -
  have "length (map row_image (map final_row
          (filter (\<lambda>d. trial_type d = js ''survey-html-form'')
             (map (\<lambda>(s, inp). finish_entry pid s inp) (zip (timeline rnd) inps))))) =
        length (map Some (trial_images (timeline rnd)))"
    by (simp only: rating_images [OF assms])
  then show ?thesis by (simp add: length_trial_images_timeline)
qed

lemma no_response_push:
  assumes "\<forall>e\<in>set ext. (\<exists>r out. e = Push (js ''responses_stream'') (Stream_row r) out)
                         \<or> e = Console Warn_level (js ''Partial save failed:'')"
  shows "pushes_to (js ''responses'') ext = [] \<and> (\<forall>d u. SetTimeout d u \<notin> set ext)"
  using assms by (induction ext rule: pushes.induct) auto
lemma completed_session_trace:
  assumes "length (timeline rnd) \<le> length inps"
  shows "\<exists>pre.
     trace (jsPsych_run b url pid (timeline rnd) inps) =
       pre @
       Push (js ''responses'')
         (Session_payload
            \<lparr>payload_participant_id = pid,
             payload_trials = map final_row
               (filter (\<lambda>d. trial_type d = js ''survey-html-form'')
                  (map (\<lambda>(s, inp). finish_entry pid s inp) (zip (timeline rnd) inps))),
             client_version = js ''v1'', payload_createdAt = TIMESTAMP\<rparr>)
         (b 108)
       # (case b 108 of
            Pending \<Rightarrow> []
          | Accepted \<Rightarrow> Console Log_level (js ''Firebase final save OK'')
                        # (if url \<noteq> [] then [SetTimeout 1200 url] else [])
          | Rejected \<Rightarrow> Console Error_level (js ''Firebase final save failed:'')
                        # (if url \<noteq> [] then [SetTimeout 1200 url] else []))
     \<and> pushes_to (js ''responses'') pre = [] \<and> (\<forall>d u. SetTimeout d u \<notin> set pre)"
proof -
  let ?init = "\<lparr>store = [], trace = []\<rparr>"
  let ?w = "fst (run_entries b pid ?init (timeline rnd) inps)"
  from run_entries_effects [where b = b and pid = pid and w = ?init
      and entries = "timeline rnd" and inps = inps] obtain ext where
    e: "trace ?w = trace ?init @ ext"
    and a: "\<forall>e\<in>set ext. (\<exists>r out. e = Push (js ''responses_stream'') (Stream_row r) out)
                         \<or> e = Console Warn_level (js ''Partial save failed:'')"
    by (elim exE conjE)
  have s: "store ?w = map (\<lambda>(s, inp). finish_entry pid s inp) (zip (timeline rnd) inps)"
    by (simp add: run_entries_store)
  have p: "pushes (trace ?w) = 108"
    unfolding run_entries_pushes rating_count [OF assms] by simp
  have t: "trace ?w = ext" using e by simp
  have n: "pushes_to (js ''responses'') ext = [] \<and> (\<forall>d u. SetTimeout d u \<notin> set ext)"
    by (rule no_response_push [OF a])
  have p': "pushes ext = 108" using p t by simp
  show ?thesis
    unfolding run_complete [OF assms] trace_on_finish s t p'
    by (rule exI [of _ ext]) (rule conjI [OF refl n])
qed

lemma pushes_to_final:
  "pushes_to (js ''responses'')
     (pre @ Push (js ''responses'') v out
        # (case out of
             Pending \<Rightarrow> []
           | Accepted \<Rightarrow> Console Log_level m1 # (if url \<noteq> [] then [SetTimeout 1200 url] else [])
           | Rejected \<Rightarrow> Console Error_level m2 # (if url \<noteq> [] then [SetTimeout 1200 url] else [])))
   = pushes_to (js ''responses'') pre @ [(v, out)]"
  by (cases out) (simp_all add: pushes_to_append)

lemma pushes_to_stream_final:
  "pushes_to (js ''responses_stream'')
     (on_finish_trace @ Push (js ''responses'') v out
        # (case out of
             Pending \<Rightarrow> []
           | Accepted \<Rightarrow> Console Log_level m1 # (if url \<noteq> [] then [SetTimeout 1200 url] else [])
           | Rejected \<Rightarrow> Console Error_level m2 # (if url \<noteq> [] then [SetTimeout 1200 url] else [])))
   = pushes_to (js ''responses_stream'') on_finish_trace"
  by (cases out) (simp_all add: pushes_to_append)

lemma warnings_final:
  "filter (\<lambda>e. e = Console Warn_level m)
     (pre @ Push (js ''responses'') v out
        # (case out of
             Pending \<Rightarrow> []
           | Accepted \<Rightarrow> Console Log_level m1 # (if url \<noteq> [] then [SetTimeout 1200 url] else [])
           | Rejected \<Rightarrow> Console Error_level m2 # (if url \<noteq> [] then [SetTimeout 1200 url] else [])))
   = filter (\<lambda>e. e = Console Warn_level m) pre"
  by (cases out) simp_all

lemma completed_session_store:
  assumes "length entries \<le> length inps"
  shows "store (jsPsych_run b url pid entries inps) =
           map (\<lambda>(s, inp). finish_entry pid s inp) (zip entries inps)"
  unfolding run_complete [OF assms] store_on_finish run_entries_store by simp

lemma completed_session_responses:
  assumes "length (timeline rnd) \<le> length inps"
  shows "pushes_to (js ''responses'') (trace (jsPsych_run b url pid (timeline rnd) inps)) =
     [(Session_payload
            \<lparr>payload_participant_id = pid,
             payload_trials = map final_row
               (filter (\<lambda>d. trial_type d = js ''survey-html-form'')
                  (map (\<lambda>(s, inp). finish_entry pid s inp) (zip (timeline rnd) inps))),
             client_version = js ''v1'', payload_createdAt = TIMESTAMP\<rparr>, b 108)]"
proof -
  from completed_session_trace [OF assms, of b url pid] obtain pre where
    t: "trace (jsPsych_run b url pid (timeline rnd) inps) =
       pre @
       Push (js ''responses'')
         (Session_payload
            \<lparr>payload_participant_id = pid,
             payload_trials = map final_row
               (filter (\<lambda>d. trial_type d = js ''survey-html-form'')
                  (map (\<lambda>(s, inp). finish_entry pid s inp) (zip (timeline rnd) inps))),
             client_version = js ''v1'', payload_createdAt = TIMESTAMP\<rparr>)
         (b 108)
       # (case b 108 of
            Pending \<Rightarrow> []
          | Accepted \<Rightarrow> Console Log_level (js ''Firebase final save OK'')
                        # (if url \<noteq> [] then [SetTimeout 1200 url] else [])
          | Rejected \<Rightarrow> Console Error_level (js ''Firebase final save failed:'')
                        # (if url \<noteq> [] then [SetTimeout 1200 url] else []))"
    and n: "pushes_to (js ''responses'') pre = []"
    by (elim exE conjE)
  show ?thesis unfolding t pushes_to_final n by simp
qed

lemma completed_session_stream:
  assumes "length (timeline rnd) \<le> length inps"
  shows "map snd (pushes_to (js ''responses_stream'')
                    (trace (jsPsych_run b url pid (timeline rnd) inps))) = map b [0 ..< 108]"
    and "map fst (pushes_to (js ''responses_stream'')
                    (trace (jsPsych_run b url pid (timeline rnd) inps))) =
         map (\<lambda>d. Stream_row (stream_row_of pid d))
           (filter (\<lambda>d. trial_type d = js ''survey-html-form'')
              (map (\<lambda>(s, inp). finish_entry pid s inp) (zip (timeline rnd) inps)))"
    and "length (filter (\<lambda>e. e = Console Warn_level (js ''Partial save failed:''))
                   (trace (jsPsych_run b url pid (timeline rnd) inps))) =
         length (filter (\<lambda>k. b k = Rejected) [0 ..< 108])"
  unfolding run_complete [OF assms] trace_on_finish pushes_to_stream_final warnings_final
    run_entries_stream_outcomes run_entries_stream_values run_entries_warnings
    rating_count [OF assms]
  by simp_all

lemma timeline_ends_with_thankYou: "\<exists>front. timeline rnd = front @ [thankYou] \<and> length front = 114"
proof (cases "rnd 108 mod 2 = 0")
  case True
  show ?thesis
    by (rule exI [of _ "[fullscreen, preload, welcome_screen, instructions, femaleIntro]
             @ fst (femaleTrials rnd) @ [maleIntro] @ fst (maleTrials rnd)"])
       (simp add: timeline_cases True maleTrials_def femaleTrials_def makeBlockTrials_length
          length_paths)
next
  case False
  show ?thesis
    by (rule exI [of _ "[fullscreen, preload, welcome_screen, instructions, maleIntro]
             @ fst (maleTrials rnd) @ [femaleIntro] @ fst (femaleTrials rnd)"])
       (simp add: timeline_cases False maleTrials_def femaleTrials_def makeBlockTrials_length
          length_paths)
qed

lemma rating_count_before_thankYou:
  assumes "length inps = 114"
  shows "length (filter (\<lambda>d. trial_type d = js ''survey-html-form'')
                   (map (\<lambda>(s, inp). finish_entry pid s inp) (zip (timeline rnd) inps))) = 108"
proof -
  obtain front where f: "timeline rnd = front @ [thankYou]" and l: "length front = 114"
    using timeline_ends_with_thankYou [of rnd] by (elim exE conjE)
  have z: "zip (timeline rnd) inps = zip front inps"
    unfolding f using l assms by (simp add: zip_append1)
  have "length front \<le> length inps" using l assms by simp
  from rating_images [OF this, of pid]
  have "length (map row_image (map final_row
          (filter (\<lambda>d. trial_type d = js ''survey-html-form'')
             (map (\<lambda>(s, inp). finish_entry pid s inp) (zip front inps))))) =
        length (map Some (trial_images front))"
    by (simp only:)
  moreover have "trial_images (timeline rnd) = trial_images front"
    unfolding f by (simp add: trial_images_append thankYou_def)
  ultimately show ?thesis
    unfolding z using length_trial_images_timeline [of rnd] by simp
qed

lemma shipped_address_sets_no_timer:
  "trace (on_finish b CLOUDRESEARCH_COMPLETION_URL pid w) =
     trace w @
     Push (js ''responses'')
       (Session_payload
          \<lparr>payload_participant_id = pid,
           payload_trials = map final_row
             (filter (\<lambda>d. trial_type d = js ''survey-html-form'') (store w)),
           client_version = js ''v1'', payload_createdAt = TIMESTAMP\<rparr>)
       (b (pushes (trace w)))
     # (case b (pushes (trace w)) of
          Pending \<Rightarrow> []
        | Accepted \<Rightarrow> [Console Log_level (js ''Firebase final save OK'')]
        | Rejected \<Rightarrow> [Console Error_level (js ''Firebase final save failed:'')])"
  by (simp add: trace_on_finish CLOUDRESEARCH_COMPLETION_URL_def split: outcome.splits)

section \<open>The claims about the file name codec\<close>

text \<open>
  C2. Every path the generator produces for the sex tag \<open>M.F\<close> or \<open>F.F\<close> parses, and the
  parser gives back the fields the path was built from. The generator's loops are written
  once more on the right-hand side, so each path is compared with the face number, the
  height code and the attractiveness suffix of the very iteration that produced it. The
  parser reports the sex tag as its label (\<open>Male\<close> for \<open>M.F\<close>, \<open>Female\<close> for \<open>F.F\<close>) and the
  attractiveness code without the dot of the suffix (\<open>null\<close> for the empty suffix). The
  same holds with the directory \<open>all_images/\<close> in front, as the program calls the parser.
\<close>

theorem generated_paths_round_trip:
  assumes "sexTag = js ''M.F'' \<or> sexTag = js ''F.F''"
  shows "map parseMeta (buildFiles sexTag) =
           [\<lparr>sex = Some (if sexTag = js ''F.F'' then js ''Female'' else js ''Male''),
             face_id = Some (Exact face),
             height_code = Some h,
             height_label = Some (if h = js ''1'' then js ''Tall''
                                  else if h = js ''2'' then js ''Average'' else js ''Short''),
             attract_code = (if a = [] then None else Some (tl a)),
             attract_label = Some (if a = [] then js ''Attractive''
                                   else if a = js ''.2'' then js ''LessAttractive''
                                   else js ''VeryUnattractive'')\<rparr>.
            face \<leftarrow> [1 ..< Suc NUM_FACES_PER_SEX], h \<leftarrow> HEIGHT_CODES, a \<leftarrow> ATTR_CODES]
         \<and> map parseMeta (map (\<lambda>f. js ''all_images/'' @ f) (buildFiles sexTag)) =
             map parseMeta (buildFiles sexTag)"
proof -
  have p: "parseMeta (js ''all_images/'' @ file_name sexTag face h a) =
           \<lparr>sex = Some (if sexTag = js ''F.F'' then js ''Female'' else js ''Male''),
            face_id = Some (Exact face),
            height_code = Some h,
            height_label = Some (if h = js ''1'' then js ''Tall''
                                 else if h = js ''2'' then js ''Average'' else js ''Short''),
            attract_code = (if a = [] then None else Some (tl a)),
            attract_label = Some (if a = [] then js ''Attractive''
                                  else if a = js ''.2'' then js ''LessAttractive''
                                  else js ''VeryUnattractive'')\<rparr>"
      and q: "parseMeta (file_name sexTag face h a) =
                parseMeta (js ''all_images/'' @ file_name sexTag face h a)"
    if "h \<in> set HEIGHT_CODES" "a \<in> set ATTR_CODES" "face \<le> 6" for face h a
  proof -
    have f: "face \<le> 2 ^ 53" using that(3) by simp
    from parseMeta_file_name [OF assms that(1,2) f, of "js ''all_images''"]
    show "parseMeta (js ''all_images/'' @ file_name sexTag face h a) =
           \<lparr>sex = Some (if sexTag = js ''F.F'' then js ''Female'' else js ''Male''),
            face_id = Some (Exact face),
            height_code = Some h,
            height_label = Some (if h = js ''1'' then js ''Tall''
                                 else if h = js ''2'' then js ''Average'' else js ''Short''),
            attract_code = (if a = [] then None else Some (tl a)),
            attract_label = Some (if a = [] then js ''Attractive''
                                  else if a = js ''.2'' then js ''LessAttractive''
                                  else js ''VeryUnattractive'')\<rparr>"
      by simp
    show "parseMeta (file_name sexTag face h a) =
            parseMeta (js ''all_images/'' @ file_name sexTag face h a)"
      by (rule parseMeta_file_name_plain [OF assms that(1,2) f])
  qed
  have h: "[49] \<in> set HEIGHT_CODES" "[50] \<in> set HEIGHT_CODES" "[51] \<in> set HEIGHT_CODES"
    by (simp_all add: HEIGHT_CODES_def)
  have a: "[] \<in> set ATTR_CODES" "[46, 50] \<in> set ATTR_CODES" "[46, 51] \<in> set ATTR_CODES"
    by (simp_all add: ATTR_CODES_def)
  note with_dir =
    p [OF h(1) a(1)] p [OF h(1) a(2)] p [OF h(1) a(3)]
    p [OF h(2) a(1)] p [OF h(2) a(2)] p [OF h(2) a(3)]
    p [OF h(3) a(1)] p [OF h(3) a(2)] p [OF h(3) a(3)]
  note plain =
    q [OF h(1) a(1)] q [OF h(1) a(2)] q [OF h(1) a(3)]
    q [OF h(2) a(1)] q [OF h(2) a(2)] q [OF h(2) a(3)]
    q [OF h(3) a(1)] q [OF h(3) a(2)] q [OF h(3) a(3)]
  have 2: "map parseMeta (map (\<lambda>f. js ''all_images/'' @ f) (buildFiles sexTag)) =
             map parseMeta (buildFiles sexTag)"
    unfolding buildFiles_def faces
    by (simp add: HEIGHT_CODES_def ATTR_CODES_def plain [simplified])
  have 1: "map parseMeta (map (\<lambda>f. js ''all_images/'' @ f) (buildFiles sexTag)) =
           [\<lparr>sex = Some (if sexTag = js ''F.F'' then js ''Female'' else js ''Male''),
             face_id = Some (Exact face),
             height_code = Some h,
             height_label = Some (if h = js ''1'' then js ''Tall''
                                  else if h = js ''2'' then js ''Average'' else js ''Short''),
             attract_code = (if a = [] then None else Some (tl a)),
             attract_label = Some (if a = [] then js ''Attractive''
                                   else if a = js ''.2'' then js ''LessAttractive''
                                   else js ''VeryUnattractive'')\<rparr>.
            face \<leftarrow> [1 ..< Suc NUM_FACES_PER_SEX], h \<leftarrow> HEIGHT_CODES, a \<leftarrow> ATTR_CODES]"
    unfolding buildFiles_def faces
    by (simp add: HEIGHT_CODES_def ATTR_CODES_def with_dir [simplified])
  show ?thesis by (rule conjI [OF 1 [unfolded 2] 2])
qed

theorem generated_paths_round_trip_witness:
  "(js ''M.F'' = js ''M.F'' \<or> js ''M.F'' = js ''F.F'')
   \<and> length (map parseMeta (map (\<lambda>f. js ''all_images/'' @ f) (buildFiles (js ''M.F'')))) = 54
   \<and> map parseMeta (map (\<lambda>f. js ''all_images/'' @ f) (buildFiles (js ''M.F''))) ! 4 =
       \<lparr>sex = Some (js ''Male''), face_id = Some (Exact 1), height_code = Some (js ''2''),
        height_label = Some (js ''Average''), attract_code = Some (js ''2''),
        attract_label = Some (js ''LessAttractive'')\<rparr>"
proof -
  have t: "js ''M.F'' = js ''M.F'' \<or> js ''M.F'' = js ''F.F''" by simp
  note r = generated_paths_round_trip [OF t]
  show ?thesis
    unfolding r [THEN conjunct2] r [THEN conjunct1] faces HEIGHT_CODES_def ATTR_CODES_def
    by simp
qed

text \<open>
  C3, as amended. A path gets the metadata record with all six fields null exactly when
  its last segment is not in the language of the parser's pattern: the sex tag \<open>M.F\<close> or
  \<open>F.F\<close> in any letter case, a non-empty run of digits, \<open>_\<close>, a height code from 1 to 3,
  optionally \<open>.2\<close> or \<open>.3\<close>, and the extension \<open>png\<close>, \<open>jpg\<close> or \<open>jpeg\<close> in any letter case.
  A name without extension or with a height or attractiveness code out of range is not in
  that language. Every name of the specification's grammar is in it, so such a name never
  gets the null record. \<open>parseMeta\<close> has no failing step: \<open>split\<close> never returns an empty
  array, so \<open>pop\<close> yields a string, and a failed match is answered by the early return.
\<close>

theorem null_meta_iff_pattern_fails:
  "(parseMeta imgPath = null_meta \<longleftrightarrow> \<not> matches_pattern (last (split 47 imgPath)))
   \<and> (spec_filename_grammar (last (split 47 imgPath)) \<longrightarrow> parseMeta imgPath \<noteq> null_meta)"
proof -
  have "parseMeta imgPath \<noteq> null_meta" if "spec_filename_grammar (last (split 47 imgPath))"
    unfolding parseMeta_null_iff using spec_grammar_in_pattern [OF that] by simp
  then show ?thesis using parseMeta_null_iff [of imgPath] by (intro conjI impI)
qed

theorem null_meta_iff_pattern_fails_witness:
  "\<not> matches_pattern (last (split 47 (js ''all_images/M.F.1_1'')))
   \<and> parseMeta (js ''all_images/M.F.1_1'') = null_meta
   \<and> \<not> matches_pattern (last (split 47 (js ''all_images/M.F.1_4.png'')))
   \<and> parseMeta (js ''all_images/M.F.1_4.png'') = null_meta
   \<and> spec_filename_grammar (last (split 47 (js ''all_images/M.F.3_2.2.png'')))
   \<and> parseMeta (js ''all_images/M.F.3_2.2.png'') \<noteq> null_meta"
proof -
  have 1: "\<not> matches_pattern (last (split 47 (js ''all_images/M.F.1_1'')))"
    unfolding match_name_pattern [symmetric] by (simp add: parser_defs)
  have 2: "\<not> matches_pattern (last (split 47 (js ''all_images/M.F.1_4.png'')))"
    unfolding match_name_pattern [symmetric] by (simp add: parser_defs)
  have n: "last (split 47 (js ''all_images/M.F.3_2.2.png'')) =
             js ''M.F'' @ js ''.'' @ to_string 3 @ js ''_'' @ js ''2'' @ js ''.2'' @ js ''.png''"
    by (simp add: split_def to_string.simps)
  have 3: "spec_filename_grammar (last (split 47 (js ''all_images/M.F.3_2.2.png'')))"
    unfolding n spec_filename_grammar_def
    by (rule exI [of _ "js ''M.F''"], rule exI [of _ 3], rule exI [of _ "js ''2''"],
        rule exI [of _ "js ''.2''"])
       (simp add: NUM_FACES_PER_SEX_def)
  note a = null_meta_iff_pattern_fails [of "js ''all_images/M.F.1_1''", THEN conjunct1, THEN iffD2, OF 1]
  note b = null_meta_iff_pattern_fails [of "js ''all_images/M.F.1_4.png''", THEN conjunct1, THEN iffD2, OF 2]
  note c = null_meta_iff_pattern_fails [of "js ''all_images/M.F.3_2.2.png''", THEN conjunct2, THEN mp, OF 3]
  show ?thesis by (intro conjI 1 a 2 b 3 c)
qed

text \<open>
  The claim as it was stated speaks of the fixed file name grammar, which in the
  specification has the sex tag exactly \<open>M.F\<close> or \<open>F.F\<close> and the face id within the fixed
  range. The pattern of the parser is wider by design (the flag \<open>i\<close>, \<open>\d+\<close>, three
  extensions): the names \<open>M.F.7_1.png\<close> and \<open>F.F.0_1.jpeg\<close> are outside that grammar, and
  the parser fills in every field for them.
\<close>

theorem name_outside_grammar_is_parsed:
  "\<not> spec_filename_grammar (last (split 47 (js ''all_images/M.F.7_1.png'')))
   \<and> parseMeta (js ''all_images/M.F.7_1.png'') =
       \<lparr>sex = Some (js ''Male''), face_id = Some (Exact 7), height_code = Some (js ''1''),
        height_label = Some (js ''Tall''), attract_code = None,
        attract_label = Some (js ''Attractive'')\<rparr>
   \<and> \<not> spec_filename_grammar (last (split 47 (js ''F.F.0_1.jpeg'')))
   \<and> parseMeta (js ''F.F.0_1.jpeg'') =
       \<lparr>sex = Some (js ''Female''), face_id = Some (Exact 0), height_code = Some (js ''1''),
        height_label = Some (js ''Tall''), attract_code = None,
        attract_label = Some (js ''Attractive'')\<rparr>"
proof -
  have n1: "last (split 47 (js ''all_images/M.F.7_1.png'')) = js ''M.F.7_1.png''"
    by (simp add: split_def)
  have n2: "last (split 47 (js ''F.F.0_1.jpeg'')) = js ''F.F.0_1.jpeg''"
    by (simp add: split_def)
  have 1: "\<not> spec_filename_grammar (last (split 47 (js ''all_images/M.F.7_1.png'')))"
    unfolding n1 by (rule face_seven_outside_spec_grammar)
  have 2: "parseMeta (js ''all_images/M.F.7_1.png'') =
       \<lparr>sex = Some (js ''Male''), face_id = Some (Exact 7), height_code = Some (js ''1''),
        height_label = Some (js ''Tall''), attract_code = None,
        attract_label = Some (js ''Attractive'')\<rparr>"
    by (simp add: parser_defs)
  have 3: "\<not> spec_filename_grammar (last (split 47 (js ''F.F.0_1.jpeg'')))"
    unfolding n2 by (rule face_zero_outside_spec_grammar)
  have 4: "parseMeta (js ''F.F.0_1.jpeg'') =
       \<lparr>sex = Some (js ''Female''), face_id = Some (Exact 0), height_code = Some (js ''1''),
        height_label = Some (js ''Tall''), attract_code = None,
        attract_label = Some (js ''Attractive'')\<rparr>"
    by (simp add: parser_defs)
  show ?thesis by (intro conjI 1 2 3 4)
qed

text \<open>
  C10. The pattern matches without regard to case, but the captured sex tag is compared
  with \<open>'F.F'\<close> as it stands. A name with a lower-case tag therefore parses, all fields
  filled in, and its sex is reported as \<open>Male\<close>, whichever letter the tag starts with.
\<close>

theorem lowercase_tag_parses_as_male:
  "parseMeta (js ''f.f.1_1.png'') =
     \<lparr>sex = Some (js ''Male''), face_id = Some (Exact 1), height_code = Some (js ''1''),
      height_label = Some (js ''Tall''), attract_code = None,
      attract_label = Some (js ''Attractive'')\<rparr>
   \<and> parseMeta (js ''F.F.1_1.png'') =
     \<lparr>sex = Some (js ''Female''), face_id = Some (Exact 1), height_code = Some (js ''1''),
      height_label = Some (js ''Tall''), attract_code = None,
      attract_label = Some (js ''Attractive'')\<rparr>
   \<and> sex (parseMeta (js ''F.f.1_1.png'')) = Some (js ''Male'')
   \<and> sex (parseMeta (js ''f.F.1_1.png'')) = Some (js ''Male'')"
  by (simp add: parser_defs)

section \<open>The claim about the participant id\<close>

text \<open>
  C8. The participant id is to be the first non-empty value among the parameters \<open>pid\<close>,
  \<open>workerId\<close> and \<open>PROLIFIC_PID\<close>. The program passes that value, which
  \<open>URLSearchParams\<close> has decoded already, through \<open>decodeURIComponent\<close> once more. Entering
  with \<open>?pid=100%\<close> the parameter's value is \<open>100%\<close>; the second decoding raises
  \<open>URIError\<close>, and no participant id is produced. Entering with \<open>?pid=ABC123\<close> gives
  \<open>ABC123\<close>, and lemma \<open>participant_id_no_percent\<close> shows the claimed result for every
  entry whose values are free of \<open>%\<close>.
\<close>

theorem participant_id_raises_on_percent:
  "first_nonempty_param
     \<lparr>search_params = (\<lambda>_. None)(js ''pid'' := Some (js ''100%'')),
      randomUUID = Some (js ''0b0e8a49-6f1e-4c1c-9d6e-2f3a5c7d9e10''),
      random36 = js ''4fzzzxjylrx'', now36 = js ''lq1v2k3a''\<rparr> = js ''100%''
   \<and> participant_id
     \<lparr>search_params = (\<lambda>_. None)(js ''pid'' := Some (js ''100%'')),
      randomUUID = Some (js ''0b0e8a49-6f1e-4c1c-9d6e-2f3a5c7d9e10''),
      random36 = js ''4fzzzxjylrx'', now36 = js ''lq1v2k3a''\<rparr> = Inl URIError
   \<and> participant_id
     \<lparr>search_params = (\<lambda>_. None)(js ''pid'' := Some (js ''ABC123'')),
      randomUUID = Some (js ''0b0e8a49-6f1e-4c1c-9d6e-2f3a5c7d9e10''),
      random36 = js ''4fzzzxjylrx'', now36 = js ''lq1v2k3a''\<rparr> = Inr (js ''ABC123'')"
  by (simp add: first_nonempty_param_def participant_id_def getParam_def or_else_def
      parse_hex_octet_def)

section \<open>The claims about the shuffle and the timeline\<close>

text \<open>
  C6. Whatever numbers the random source returns, the shuffled trial list of a block holds
  the same trials as the list it was made from, each as often as there: it is a
  permutation. For the two blocks of the program the trials are 54 each and pairwise
  different, so every trial of the block occurs exactly once.
\<close>

theorem shuffled_block_is_permutation:
  "mset (fst (makeBlockTrials rnd label paths)) = mset (map (makeImageTrial label) paths)
   \<and> length (fst (makeBlockTrials rnd label paths)) = length paths
   \<and> mset (fst (maleTrials rnd)) = mset (map (makeImageTrial (js ''Male'')) malePaths)
   \<and> distinct (fst (maleTrials rnd)) \<and> length (fst (maleTrials rnd)) = 54
   \<and> mset (fst (femaleTrials rnd)) = mset (map (makeImageTrial (js ''Female'')) femalePaths)
   \<and> distinct (fst (femaleTrials rnd)) \<and> length (fst (femaleTrials rnd)) = 54"
  unfolding maleTrials_def femaleTrials_def
  by (simp add: makeBlockTrials_mset makeBlockTrials_length makeBlockTrials_distinct
      distinct_paths length_paths)

text \<open>
  C7. The timeline is the fullscreen request, the preload step, the welcome and the
  instruction screen, the intro and the trials of the first block, the intro and the
  trials of the second block, and the thank-you screen. The blocks come male first or
  female first; both orders occur, for suitable random numbers. The preload step lists
  the male and the female paths, no path twice, and these are the image paths of the
  rating trials of the timeline, each of them once.
\<close>

theorem timeline_is_linear_sequence:
  "(timeline rnd = [fullscreen, preload, welcome_screen, instructions, maleIntro]
                     @ fst (maleTrials rnd) @ [femaleIntro] @ fst (femaleTrials rnd) @ [thankYou]
    \<or> timeline rnd = [fullscreen, preload, welcome_screen, instructions, femaleIntro]
                     @ fst (femaleTrials rnd) @ [maleIntro] @ fst (maleTrials rnd) @ [thankYou])
   \<and> (\<exists>r. timeline r ! 4 = maleIntro) \<and> (\<exists>r. timeline r ! 4 = femaleIntro)
   \<and> maleIntro \<noteq> femaleIntro
   \<and> preload = JsPsychPreload (malePaths @ femalePaths)
   \<and> distinct (malePaths @ femalePaths)
   \<and> mset (trial_images (timeline rnd)) = mset (malePaths @ femalePaths)"
proof -
  have 1: "timeline rnd = [fullscreen, preload, welcome_screen, instructions, maleIntro]
                     @ fst (maleTrials rnd) @ [femaleIntro] @ fst (femaleTrials rnd) @ [thankYou]
    \<or> timeline rnd = [fullscreen, preload, welcome_screen, instructions, femaleIntro]
                     @ fst (femaleTrials rnd) @ [maleIntro] @ fst (maleTrials rnd) @ [thankYou]"
    by (simp add: timeline_cases)
  have 2: "\<exists>r. timeline r ! 4 = maleIntro"
    by (rule exI [of _ "\<lambda>_. 1"]) (simp add: timeline_cases)
  have 3: "\<exists>r. timeline r ! 4 = femaleIntro"
    by (rule exI [of _ "\<lambda>_. 0"]) (simp add: timeline_cases)
  have 4: "maleIntro \<noteq> femaleIntro" by (simp add: maleIntro_def femaleIntro_def makeBlockIntro_def)
  have 5: "preload = JsPsychPreload (malePaths @ femalePaths)" by (simp add: preload_def)
  show ?thesis using 1 2 3 4 5 distinct_malePaths trial_images_timeline by (intro conjI)
qed

section \<open>The claim about the gate\<close>

text \<open>
  C9. In a trial, after any sequence of events on the four range inputs, the Continue
  button is disabled exactly when some range input has not yet had an event of one of the
  seven types; the message is shown exactly then. So the state of the gate depends only on
  which events have occurred, not on their order or number; a further event on a range
  input that has been touched leaves it as it is; and once the button is enabled, it
  stays enabled whatever follows.
\<close>

theorem gate_unlocks_when_all_touched:
  "button (gate_after evs) = Some (\<not> (\<forall>i<4. \<exists>ev\<in>set qualifying. (i, ev) \<in> set evs))
   \<and> msg (gate_after evs) =
       Some (if \<forall>i<4. \<exists>ev\<in>set qualifying. (i, ev) \<in> set evs then js ''none'' else js ''block'')
   \<and> (set evs' = set evs \<longrightarrow> button (gate_after evs') = button (gate_after evs))
   \<and> ((\<exists>ev\<in>set qualifying. (i, ev) \<in> set evs) \<longrightarrow>
        button (gate_after (evs @ [(i, e)])) = button (gate_after evs))
   \<and> (button (gate_after evs) = Some False \<longrightarrow> button (gate_after (evs @ later)) = Some False)"
proof -
  have 3: "set evs' = set evs \<longrightarrow> button (gate_after evs') = button (gate_after evs)"
    by (simp add: button_after)
  have 4: "(\<exists>ev\<in>set qualifying. (i, ev) \<in> set evs) \<longrightarrow>
        button (gate_after (evs @ [(i, e)])) = button (gate_after evs)"
    unfolding button_after by auto
  have 5: "button (gate_after evs) = Some False \<longrightarrow> button (gate_after (evs @ later)) = Some False"
    unfolding button_after by auto
  show ?thesis using button_after [of evs] msg_after [of evs] 3 4 5 by (intro conjI)
qed

theorem gate_unlocks_when_all_touched_witness:
  "button (gate_after [(2, Focus), (0, Input), (2, Input), (1, Keydown)]) = Some True
   \<and> button (gate_after [(2, Focus), (0, Input), (2, Input), (1, Keydown), (3, Pointerdown)])
       = Some False
   \<and> set [(3, Pointerdown), (1, Keydown), (0, Input), (2, Focus), (2, Input)]
       = set [(2::nat, Focus), (0, Input), (2, Input), (1, Keydown), (3, Pointerdown)]
   \<and> button (gate_after [(3, Pointerdown), (1, Keydown), (0, Input), (2, Focus), (2, Input)])
       = Some False
   \<and> (\<exists>ev\<in>set qualifying.
         (2::nat, ev) \<in> set [(2, Focus), (0, Input), (2, Input), (1, Keydown)])
   \<and> button (gate_after ([(2, Focus), (0, Input), (2, Input), (1, Keydown)] @ [(2, Change)]))
       = Some True
   \<and> button (gate_after ([(2, Focus), (0, Input), (2, Input), (1, Keydown), (3, Pointerdown)]
                          @ [(0, Other_event), (3, Change)])) = Some False"
proof -
  have a: "set [(3, Pointerdown), (1, Keydown), (0, Input), (2, Focus), (2, Input)]
       = set [(2::nat, Focus), (0, Input), (2, Input), (1, Keydown), (3, Pointerdown)]"
    by auto
  have b: "\<exists>ev\<in>set qualifying. (2::nat, ev) \<in> set [(2, Focus), (0, Input), (2, Input), (1, Keydown)]"
    by (simp add: qualifying_def)
  note t1 = gate_unlocks_when_all_touched
    [of "[(2, Focus), (0, Input), (2, Input), (1, Keydown)]" "[]" 2 Change "[]"]
  note t2 = gate_unlocks_when_all_touched
    [of "[(2, Focus), (0, Input), (2, Input), (1, Keydown), (3, Pointerdown)]"
        "[(3, Pointerdown), (1, Keydown), (0, Input), (2, Focus), (2, Input)]" 0 Input
        "[(0, Other_event), (3, Change)]"]
  have c: "button (gate_after [(2, Focus), (0, Input), (2, Input), (1, Keydown)]) = Some True"
    using t1 [THEN conjunct1] by (simp add: all_less_4 qualifying_def)
  have d: "button (gate_after [(2, Focus), (0, Input), (2, Input), (1, Keydown), (3, Pointerdown)])
       = Some False"
    using t2 [THEN conjunct1] by (simp add: all_less_4 qualifying_def)
  have e: "button (gate_after [(3, Pointerdown), (1, Keydown), (0, Input), (2, Focus), (2, Input)])
       = Some False"
    using t2 [THEN conjunct2, THEN conjunct2, THEN conjunct1, THEN mp, OF a] d by simp
  have f: "button (gate_after ([(2, Focus), (0, Input), (2, Input), (1, Keydown)] @ [(2, Change)]))
       = Some True"
    using t1 [THEN conjunct2, THEN conjunct2, THEN conjunct2, THEN conjunct1, THEN mp, OF b] c
    by simp
  have g: "button (gate_after ([(2, Focus), (0, Input), (2, Input), (1, Keydown), (3, Pointerdown)]
                          @ [(0, Other_event), (3, Change)])) = Some False"
    using t2 [THEN conjunct2, THEN conjunct2, THEN conjunct2, THEN conjunct2, THEN mp, OF d] .
  show ?thesis by (intro conjI c d a e b f g)
qed

section \<open>The claims about saving the results\<close>

text \<open>
  C4, as amended. In every session in which the whole timeline completes, the thank-you
  screen included, exactly one write to the collection \<open>responses\<close> is issued. Its payload
  carries the participant id, the version tag, the server time stamp and the rows of the
  108 rating trials in the order of completion, each row with the eleven fields of type
  \<open>row\<close>, which has neither a participant id nor a time stamp. The record is in the
  collection if the backend accepts the write, and the collection stays empty otherwise.
\<close>

theorem one_aggregate_write_when_timeline_completes:
  assumes "length (timeline rnd) \<le> length inps"
  shows "\<exists>p. pushes_to (js ''responses'') (trace (jsPsych_run b url pid (timeline rnd) inps))
              = [(Session_payload p, b 108)]
           \<and> stored (js ''responses'') (trace (jsPsych_run b url pid (timeline rnd) inps))
              = (if b 108 = Accepted then [Session_payload p] else [])
           \<and> payload_participant_id p = pid \<and> client_version p = js ''v1''
           \<and> payload_createdAt p = TIMESTAMP
           \<and> payload_trials p =
               map final_row (filter (\<lambda>d. trial_type d = js ''survey-html-form'')
                                (store (jsPsych_run b url pid (timeline rnd) inps)))
           \<and> length (payload_trials p) = 108
           \<and> map row_image (payload_trials p) = map Some (trial_images (timeline rnd))"
proof -
  let ?rows = "map final_row
                 (filter (\<lambda>d. trial_type d = js ''survey-html-form'')
                    (map (\<lambda>(s, inp). finish_entry pid s inp) (zip (timeline rnd) inps)))"
  let ?p = "\<lparr>payload_participant_id = pid, payload_trials = ?rows,
             client_version = js ''v1'', payload_createdAt = TIMESTAMP\<rparr>"
  have 1: "pushes_to (js ''responses'') (trace (jsPsych_run b url pid (timeline rnd) inps))
              = [(Session_payload ?p, b 108)]"
    by (rule completed_session_responses [OF assms])
  have 2: "stored (js ''responses'') (trace (jsPsych_run b url pid (timeline rnd) inps))
              = (if b 108 = Accepted then [Session_payload ?p] else [])"
    unfolding stored_def 1 by simp
  have 3: "payload_trials ?p =
               map final_row (filter (\<lambda>d. trial_type d = js ''survey-html-form'')
                                (store (jsPsych_run b url pid (timeline rnd) inps)))"
    unfolding completed_session_store [OF assms] by simp
  have 4: "length (payload_trials ?p) = 108"
    using rating_count [OF assms, of pid] by simp
  have 5: "map row_image (payload_trials ?p) = map Some (trial_images (timeline rnd))"
    using rating_images [OF assms, of pid] by simp
  show ?thesis
    by (rule exI [of _ ?p]) (intro conjI 1 2 3 4 5; simp)
qed

theorem one_aggregate_write_when_timeline_completes_witness:
  "length (timeline (\<lambda>_. 1)) \<le> length (replicate 115 (900::nat, \<lparr>Q1 = 1, Q2 = 7, Q3 = 4, Q4 = 4\<rparr>))
   \<and> (\<exists>p. stored (js ''responses'')
             (trace (jsPsych_run (\<lambda>_. Accepted) [] (js ''ABC123'') (timeline (\<lambda>_. 1))
                       (replicate 115 (900::nat, \<lparr>Q1 = 1, Q2 = 7, Q3 = 4, Q4 = 4\<rparr>))))
           = [Session_payload p]
          \<and> payload_participant_id p = js ''ABC123'' \<and> length (payload_trials p) = 108)"
proof -
  have l: "length (timeline (\<lambda>_. 1)) \<le> length (replicate 115 (900::nat, \<lparr>Q1 = 1, Q2 = 7, Q3 = 4, Q4 = 4\<rparr>))"
    by (simp add: length_timeline)
  from one_aggregate_write_when_timeline_completes
         [OF l, of "\<lambda>_. Accepted" "[]" "js ''ABC123''"]
  obtain p where
    "stored (js ''responses'')
             (trace (jsPsych_run (\<lambda>_. Accepted) [] (js ''ABC123'') (timeline (\<lambda>_. 1))
                       (replicate 115 (900::nat, \<lparr>Q1 = 1, Q2 = 7, Q3 = 4, Q4 = 4\<rparr>))))
           = (if (\<lambda>_. Accepted) (108::nat) = Accepted then [Session_payload p] else [])"
    "payload_participant_id p = js ''ABC123''" "length (payload_trials p) = 108"
    by (elim exE conjE)
  then have "stored (js ''responses'')
             (trace (jsPsych_run (\<lambda>_. Accepted) [] (js ''ABC123'') (timeline (\<lambda>_. 1))
                       (replicate 115 (900::nat, \<lparr>Q1 = 1, Q2 = 7, Q3 = 4, Q4 = 4\<rparr>))))
           = [Session_payload p]
          \<and> payload_participant_id p = js ''ABC123'' \<and> length (payload_trials p) = 108"
    by simp
  then have "\<exists>p. stored (js ''responses'')
             (trace (jsPsych_run (\<lambda>_. Accepted) [] (js ''ABC123'') (timeline (\<lambda>_. 1))
                       (replicate 115 (900::nat, \<lparr>Q1 = 1, Q2 = 7, Q3 = 4, Q4 = 4\<rparr>))))
           = [Session_payload p]
          \<and> payload_participant_id p = js ''ABC123'' \<and> length (payload_trials p) = 108"
    by (rule exI)
  then show ?thesis by (rule conjI [OF l])
qed

text \<open>
  The claim as it was stated asks for one stored record whenever all trials of both blocks
  complete. Two sessions in which all 108 rating trials complete show otherwise: in the
  first the backend rejects the final write, which is caught and logged, so nothing is
  stored; in the second the participant leaves at the thank-you screen, so the finish hook
  never runs and no write to \<open>responses\<close> is issued at all.
\<close>

theorem aggregate_record_can_be_missing:
  "length (filter (\<lambda>d. trial_type d = js ''survey-html-form'')
     (store (jsPsych_run (\<lambda>k. if k = 108 then Rejected else Accepted) [] (js ''ABC123'')
               (timeline (\<lambda>_. 0)) (replicate 115 (1000, \<lparr>Q1 = 4, Q2 = 4, Q3 = 4, Q4 = 4\<rparr>))))) = 108
   \<and> stored (js ''responses'')
     (trace (jsPsych_run (\<lambda>k. if k = 108 then Rejected else Accepted) [] (js ''ABC123'')
               (timeline (\<lambda>_. 0)) (replicate 115 (1000, \<lparr>Q1 = 4, Q2 = 4, Q3 = 4, Q4 = 4\<rparr>)))) = []
   \<and> length (filter (\<lambda>d. trial_type d = js ''survey-html-form'')
     (store (jsPsych_run (\<lambda>_. Accepted) [] (js ''ABC123'')
               (timeline (\<lambda>_. 0)) (replicate 114 (1000, \<lparr>Q1 = 4, Q2 = 4, Q3 = 4, Q4 = 4\<rparr>))))) = 108
   \<and> pushes_to (js ''responses'')
     (trace (jsPsych_run (\<lambda>_. Accepted) [] (js ''ABC123'')
               (timeline (\<lambda>_. 0)) (replicate 114 (1000, \<lparr>Q1 = 4, Q2 = 4, Q3 = 4, Q4 = 4\<rparr>)))) = []"
proof -
  let ?a = "(1000, \<lparr>Q1 = 4, Q2 = 4, Q3 = 4, Q4 = 4\<rparr>) :: participant_input"
  let ?rnd = "(\<lambda>_. 0) :: draws"
  have full: "length (timeline ?rnd) \<le> length (replicate 115 ?a)"
    by (simp add: length_timeline)
  have short: "length (replicate 114 ?a) < length (timeline ?rnd)"
    by (simp add: length_timeline)
  have 1: "length (filter (\<lambda>d. trial_type d = js ''survey-html-form'')
     (store (jsPsych_run (\<lambda>k. if k = 108 then Rejected else Accepted) [] (js ''ABC123'')
               (timeline ?rnd) (replicate 115 ?a)))) = 108"
    unfolding completed_session_store [OF full] by (rule rating_count [OF full])
  have 2: "stored (js ''responses'')
     (trace (jsPsych_run (\<lambda>k. if k = 108 then Rejected else Accepted) [] (js ''ABC123'')
               (timeline ?rnd) (replicate 115 ?a))) = []"
    unfolding stored_def completed_session_responses [OF full] by simp
  have 3: "length (filter (\<lambda>d. trial_type d = js ''survey-html-form'')
     (store (jsPsych_run (\<lambda>_. Accepted) [] (js ''ABC123'')
               (timeline ?rnd) (replicate 114 ?a)))) = 108"
    unfolding run_incomplete [OF short] run_entries_store
    using rating_count_before_thankYou [of "replicate 114 ?a" "js ''ABC123''" ?rnd] by simp
  have 4: "pushes_to (js ''responses'')
     (trace (jsPsych_run (\<lambda>_. Accepted) [] (js ''ABC123'')
               (timeline ?rnd) (replicate 114 ?a))) = []"
    unfolding run_incomplete [OF short] run_entries_responses by simp
  show ?thesis by (intro conjI 1 2 3 4)
qed

text \<open>
  C5. Whatever the backend does with the streamed rows, a session in which the participant
  goes through the timeline records all 115 entries, and the final payload holds the rows
  of all 108 rating trials. Each rating trial is pushed to \<open>responses_stream\<close> exactly once,
  in order, the \<open>k\<close>-th with the outcome the backend gives it, so nothing is retried; and
  there is one logged warning for each rejected write.
\<close>

theorem partial_save_failure_never_stops_session:
  assumes "length (timeline rnd) \<le> length inps"
  shows "store (jsPsych_run b url pid (timeline rnd) inps) =
           map (\<lambda>(s, inp). finish_entry pid s inp) (zip (timeline rnd) inps)
       \<and> length (store (jsPsych_run b url pid (timeline rnd) inps)) = 115
       \<and> map fst (pushes_to (js ''responses'') (trace (jsPsych_run b url pid (timeline rnd) inps))) =
           [Session_payload
              \<lparr>payload_participant_id = pid,
               payload_trials = map final_row
                 (filter (\<lambda>d. trial_type d = js ''survey-html-form'')
                    (map (\<lambda>(s, inp). finish_entry pid s inp) (zip (timeline rnd) inps))),
               client_version = js ''v1'', payload_createdAt = TIMESTAMP\<rparr>]
       \<and> length (filter (\<lambda>d. trial_type d = js ''survey-html-form'')
                    (map (\<lambda>(s, inp). finish_entry pid s inp) (zip (timeline rnd) inps))) = 108
       \<and> map fst (pushes_to (js ''responses_stream'')
                    (trace (jsPsych_run b url pid (timeline rnd) inps))) =
           map (\<lambda>d. Stream_row (stream_row_of pid d))
             (filter (\<lambda>d. trial_type d = js ''survey-html-form'')
                (map (\<lambda>(s, inp). finish_entry pid s inp) (zip (timeline rnd) inps)))
       \<and> map snd (pushes_to (js ''responses_stream'')
                    (trace (jsPsych_run b url pid (timeline rnd) inps))) = map b [0 ..< 108]
       \<and> length (filter (\<lambda>e. e = Console Warn_level (js ''Partial save failed:''))
                   (trace (jsPsych_run b url pid (timeline rnd) inps))) =
           length (filter (\<lambda>k. b k = Rejected) [0 ..< 108])"
proof -
  have 1: "store (jsPsych_run b url pid (timeline rnd) inps) =
           map (\<lambda>(s, inp). finish_entry pid s inp) (zip (timeline rnd) inps)"
    by (rule completed_session_store [OF assms])
  have 2: "length (store (jsPsych_run b url pid (timeline rnd) inps)) = 115"
    unfolding 1 using assms by (simp add: length_timeline)
  have 3: "map fst (pushes_to (js ''responses'') (trace (jsPsych_run b url pid (timeline rnd) inps))) =
           [Session_payload
              \<lparr>payload_participant_id = pid,
               payload_trials = map final_row
                 (filter (\<lambda>d. trial_type d = js ''survey-html-form'')
                    (map (\<lambda>(s, inp). finish_entry pid s inp) (zip (timeline rnd) inps))),
               client_version = js ''v1'', payload_createdAt = TIMESTAMP\<rparr>]"
    unfolding completed_session_responses [OF assms] by simp
  show ?thesis
    by (intro conjI 1 2 3 rating_count [OF assms] completed_session_stream [OF assms])
qed

theorem partial_save_failure_never_stops_session_witness:
  "length (timeline (\<lambda>_. 0)) \<le> length (replicate 115 (900::nat, \<lparr>Q1 = 1, Q2 = 7, Q3 = 4, Q4 = 4\<rparr>))
   \<and> map snd (pushes_to (js ''responses_stream'')
        (trace (jsPsych_run (\<lambda>k. if k = 4 then Rejected else Accepted) [] (js ''ABC123'')
                  (timeline (\<lambda>_. 0)) (replicate 115 (900::nat, \<lparr>Q1 = 1, Q2 = 7, Q3 = 4, Q4 = 4\<rparr>))))) ! 4
       = Rejected
   \<and> length (store (jsPsych_run (\<lambda>k. if k = 4 then Rejected else Accepted) [] (js ''ABC123'')
                  (timeline (\<lambda>_. 0)) (replicate 115 (900::nat, \<lparr>Q1 = 1, Q2 = 7, Q3 = 4, Q4 = 4\<rparr>)))) = 115
   \<and> length (filter (\<lambda>e. e = Console Warn_level (js ''Partial save failed:''))
        (trace (jsPsych_run (\<lambda>k. if k = 4 then Rejected else Accepted) [] (js ''ABC123'')
                  (timeline (\<lambda>_. 0)) (replicate 115 (900::nat, \<lparr>Q1 = 1, Q2 = 7, Q3 = 4, Q4 = 4\<rparr>))))) = 1"
proof -
  have l: "length (timeline (\<lambda>_. 0)) \<le> length (replicate 115 (900::nat, \<lparr>Q1 = 1, Q2 = 7, Q3 = 4, Q4 = 4\<rparr>))"
    by (simp add: length_timeline)
  note t = partial_save_failure_never_stops_session
             [OF l, of "\<lambda>k. if k = 4 then Rejected else Accepted" "[]" "js ''ABC123''"]
  have f: "filter (\<lambda>k. (if k = 4 then Rejected else Accepted) = Rejected) [0 ..< 108] = [4::nat]"
  proof -
    have "filter (\<lambda>k. (if k = 4 then Rejected else Accepted) = Rejected) [0 ..< 108]
            = filter (\<lambda>k. k = 4) [0 ..< 108]"
      by (rule filter_cong) auto
    also have "\<dots> = [4]" by (simp add: filter_eq_Cons_iff upt_conv_Cons) 
    finally show ?thesis .
  qed
  have o: "map snd (pushes_to (js ''responses_stream'')
        (trace (jsPsych_run (\<lambda>k. if k = 4 then Rejected else Accepted) [] (js ''ABC123'')
                  (timeline (\<lambda>_. 0)) (replicate 115 (900::nat, \<lparr>Q1 = 1, Q2 = 7, Q3 = 4, Q4 = 4\<rparr>))))) ! 4
       = Rejected"
    unfolding t [THEN conjunct2, THEN conjunct2, THEN conjunct2, THEN conjunct2, THEN conjunct2,
                 THEN conjunct1]
    by simp
  have w: "length (filter (\<lambda>e. e = Console Warn_level (js ''Partial save failed:''))
        (trace (jsPsych_run (\<lambda>k. if k = 4 then Rejected else Accepted) [] (js ''ABC123'')
                  (timeline (\<lambda>_. 0)) (replicate 115 (900::nat, \<lparr>Q1 = 1, Q2 = 7, Q3 = 4, Q4 = 4\<rparr>))))) = 1"
    unfolding t [THEN conjunct2, THEN conjunct2, THEN conjunct2, THEN conjunct2, THEN conjunct2,
                 THEN conjunct2] f
    by simp
  show ?thesis
    by (intro conjI l o w t [THEN conjunct2, THEN conjunct1])
qed

text \<open>
  C1. With a completion address configured, a session that goes through the timeline
  ends as follows: the final payload is pushed to \<open>responses\<close>; when the write is accepted,
  the success is logged and a timer of 1200 ms is set whose callback navigates to the
  address. No timer is set before the final write is issued. (When the write is rejected
  the failure is logged and the same timer is set; when the backend never answers, nothing
  follows the write.)
\<close>

theorem redirect_follows_final_save:
  assumes "url \<noteq> []" and "length (timeline rnd) \<le> length inps"
  shows "\<exists>pre p. trace (jsPsych_run b url pid (timeline rnd) inps) =
            pre @ Push (js ''responses'') (Session_payload p) (b 108)
              # (case b 108 of
                   Accepted \<Rightarrow> [Console Log_level (js ''Firebase final save OK''),
                                SetTimeout 1200 url]
                 | Rejected \<Rightarrow> [Console Error_level (js ''Firebase final save failed:''),
                                SetTimeout 1200 url]
                 | Pending \<Rightarrow> [])
          \<and> (\<forall>d u. SetTimeout d u \<notin> set pre)"
proof -
  let ?p = "\<lparr>payload_participant_id = pid,
             payload_trials = map final_row
               (filter (\<lambda>d. trial_type d = js ''survey-html-form'')
                  (map (\<lambda>(s, inp). finish_entry pid s inp) (zip (timeline rnd) inps))),
             client_version = js ''v1'', payload_createdAt = TIMESTAMP\<rparr>"
  from completed_session_trace [OF assms(2), of b url pid] obtain pre where
    t: "trace (jsPsych_run b url pid (timeline rnd) inps) =
       pre @
       Push (js ''responses'') (Session_payload ?p) (b 108)
       # (case b 108 of
            Pending \<Rightarrow> []
          | Accepted \<Rightarrow> Console Log_level (js ''Firebase final save OK'')
                        # (if url \<noteq> [] then [SetTimeout 1200 url] else [])
          | Rejected \<Rightarrow> Console Error_level (js ''Firebase final save failed:'')
                        # (if url \<noteq> [] then [SetTimeout 1200 url] else []))"
    and n: "\<forall>d u. SetTimeout d u \<notin> set pre"
    by (elim exE conjE)
  have "trace (jsPsych_run b url pid (timeline rnd) inps) =
            pre @ Push (js ''responses'') (Session_payload ?p) (b 108)
              # (case b 108 of
                   Accepted \<Rightarrow> [Console Log_level (js ''Firebase final save OK''),
                                SetTimeout 1200 url]
                 | Rejected \<Rightarrow> [Console Error_level (js ''Firebase final save failed:''),
                                SetTimeout 1200 url]
                 | Pending \<Rightarrow> [])"
    unfolding t using assms(1) by (cases "b 108") simp_all
  then show ?thesis using n by (intro exI conjI)
qed

theorem redirect_follows_final_save_witness:
  "js ''https://example.org/done'' \<noteq> []
   \<and> length (timeline (\<lambda>_. 0)) \<le> length (replicate 115 (900::nat, \<lparr>Q1 = 1, Q2 = 7, Q3 = 4, Q4 = 4\<rparr>))
   \<and> (\<exists>pre p. trace (jsPsych_run (\<lambda>_. Accepted) (js ''https://example.org/done'') (js ''ABC123'')
                        (timeline (\<lambda>_. 0))
                        (replicate 115 (900::nat, \<lparr>Q1 = 1, Q2 = 7, Q3 = 4, Q4 = 4\<rparr>))) =
            pre @ [Push (js ''responses'') (Session_payload p) Accepted,
                   Console Log_level (js ''Firebase final save OK''),
                   SetTimeout 1200 (js ''https://example.org/done'')]
          \<and> (\<forall>d u. SetTimeout d u \<notin> set pre))"
proof -
  have u: "js ''https://example.org/done'' \<noteq> []" by simp
  have l: "length (timeline (\<lambda>_. 0)) \<le> length (replicate 115 (900::nat, \<lparr>Q1 = 1, Q2 = 7, Q3 = 4, Q4 = 4\<rparr>))"
    by (simp add: length_timeline)
  from redirect_follows_final_save [OF u l, of "\<lambda>_. Accepted" "js ''ABC123''"]
  obtain pre p where
    "trace (jsPsych_run (\<lambda>_. Accepted) (js ''https://example.org/done'') (js ''ABC123'')
                        (timeline (\<lambda>_. 0))
                        (replicate 115 (900::nat, \<lparr>Q1 = 1, Q2 = 7, Q3 = 4, Q4 = 4\<rparr>))) =
            pre @ Push (js ''responses'') (Session_payload p) ((\<lambda>_. Accepted) (108::nat))
              # (case (\<lambda>_. Accepted) (108::nat) of
                   Accepted \<Rightarrow> [Console Log_level (js ''Firebase final save OK''),
                                SetTimeout 1200 (js ''https://example.org/done'')]
                 | Rejected \<Rightarrow> [Console Error_level (js ''Firebase final save failed:''),
                                SetTimeout 1200 (js ''https://example.org/done'')]
                 | Pending \<Rightarrow> [])"
    "\<forall>d u. SetTimeout d u \<notin> set pre"
    by (elim exE conjE)
  then have "trace (jsPsych_run (\<lambda>_. Accepted) (js ''https://example.org/done'') (js ''ABC123'')
                        (timeline (\<lambda>_. 0))
                        (replicate 115 (900::nat, \<lparr>Q1 = 1, Q2 = 7, Q3 = 4, Q4 = 4\<rparr>))) =
            pre @ [Push (js ''responses'') (Session_payload p) Accepted,
                   Console Log_level (js ''Firebase final save OK''),
                   SetTimeout 1200 (js ''https://example.org/done'')]
          \<and> (\<forall>d u. SetTimeout d u \<notin> set pre)"
    by simp
  then have "\<exists>pre p. trace (jsPsych_run (\<lambda>_. Accepted) (js ''https://example.org/done'') (js ''ABC123'')
                        (timeline (\<lambda>_. 0))
                        (replicate 115 (900::nat, \<lparr>Q1 = 1, Q2 = 7, Q3 = 4, Q4 = 4\<rparr>))) =
            pre @ [Push (js ''responses'') (Session_payload p) Accepted,
                   Console Log_level (js ''Firebase final save OK''),
                   SetTimeout 1200 (js ''https://example.org/done'')]
          \<and> (\<forall>d u. SetTimeout d u \<notin> set pre)"
    by (intro exI)
  then show ?thesis by (intro conjI u l)
qed

end
